theory Spec2Isabelle
  imports Complex_Main
begin

section \<open>JavaScript string primitives used by the import pipeline\<close>

text \<open>
  Strings are lists of characters. The two built-ins below are the ones the row mapper of
  \<^verbatim>\<open>apps/web/app/api/cron/import/csv/route.ts\<close> calls with a one-character separator;
  they do not depend on what the other characters are.
\<close>

text \<open>\<^verbatim>\<open>s.split(sep)\<close> for a one-character separator: the pieces between the
  separators, empty pieces kept; the empty string gives one empty piece.\<close>

fun js_split :: "char \<Rightarrow> string \<Rightarrow> string list" where
  "js_split sep [] = [[]]"
| "js_split sep (c # cs) =
     (if c = sep then [] # js_split sep cs
      else (case js_split sep cs of
              [] \<Rightarrow> [[c]]
            | p # ps \<Rightarrow> (c # p) # ps))"

text \<open>\<^verbatim>\<open>parts.join(sep)\<close>.\<close>

fun js_join :: "string \<Rightarrow> string list \<Rightarrow> string" where
  "js_join sep [] = []"
| "js_join sep [p] = p"
| "js_join sep (p # q # ps) = p @ sep @ js_join sep (q # ps)"


section \<open>The row mapper\<close>

text \<open>
  A CSV row as the parser hands it over with \<^verbatim>\<open>header: true\<close>: the fields of the row
  object in the order of \<^verbatim>\<open>Object.keys\<close>, each header with its cell.
\<close>

type_synonym csv_row = "(string \<times> string) list"

text \<open>\<^verbatim>\<open>linkMappingSchema\<close>: the column assigned to each logical field; the last four
  are optional.\<close>

record link_mapping =
  m_link :: string
  m_url :: string
  m_title :: "string option"
  m_description :: "string option"
  m_tags :: "string option"
  m_createdAt :: "string option"

text \<open>\<^verbatim>\<open>MapperResult["data"]\<close>. A \<^verbatim>\<open>Date\<close> is its time value in milliseconds.\<close>

record link_data =
  domain :: string
  key :: string
  url :: string
  title :: "string option"
  description :: "string option"
  tags :: "string list option"
  createdAt :: "int option"

text \<open>\<^verbatim>\<open>interface MapperResult\<close>.\<close>

record MapperResult =
  success :: bool
  error :: "string option"
  data :: "link_data option"

text \<open>
  What the mapper and the parse callbacks take from outside the file, as parameters of the
  model: \<^verbatim>\<open>normalizeString\<close> and \<^verbatim>\<open>parseDateTime\<close> of the utilities package; the
  platform's \<^verbatim>\<open>new URL(s)\<close>, of which the mapper only observes whether it throws; the
  built-in \<^verbatim>\<open>String.prototype.trim\<close>; and the comparison \<^verbatim>\<open>n >= s\<close> of a number
  with a string, which the language decides after converting the string to a number
  (\<open>number_ge_string\<close>). The utilities return, so the catch-all of line 290 has nothing
  to catch.
\<close>

record mapper_env =
  normalizeString :: "string \<Rightarrow> string"
  validURL :: "string \<Rightarrow> bool"
  parseDateTime :: "string \<Rightarrow> int option"
  trim :: "string \<Rightarrow> string"
  number_ge_string :: "nat \<Rightarrow> string \<Rightarrow> bool"

text \<open>Truthiness of an optional string, as in \<^verbatim>\<open>if (mapping.title)\<close>.\<close>

fun truthy :: "string option \<Rightarrow> bool" where
  "truthy None = False"
| "truthy (Some s) = (s \<noteq> [])"

text \<open>The inner helper \<^verbatim>\<open>getValueByKey\<close>: the first header whose normal form is the
  target's; a missing or empty header gives the empty string.\<close>

definition getValueByKey :: "mapper_env \<Rightarrow> csv_row \<Rightarrow> string \<Rightarrow> string" where
  "getValueByKey env row targetKey =
     (case find (\<lambda>k. normalizeString env k = normalizeString env targetKey) (map fst row) of
        None \<Rightarrow> []
      | Some k \<Rightarrow>
          (if k = [] then []
           else (case map_of row k of None \<Rightarrow> [] | Some v \<Rightarrow> trim env v)))"

text \<open>An optional column: read only when the mapping names it, kept only when the cell is
  not empty.\<close>

definition optionalValue :: "mapper_env \<Rightarrow> csv_row \<Rightarrow> string option \<Rightarrow> string option" where
  "optionalValue env row col =
     (case col of
        None \<Rightarrow> None
      | Some c \<Rightarrow>
          (if c = [] then None
           else (let v = getValueByKey env row c in if v = [] then None else Some v)))"

definition mapCsvRowToLink :: "mapper_env \<Rightarrow> csv_row \<Rightarrow> link_mapping \<Rightarrow> MapperResult" where
  "mapCsvRowToLink env row mapping =
     (let linkValue = getValueByKey env row (m_link mapping);
          urlValue = getValueByKey env row (m_url mapping)
      in
        if linkValue = [] then
          \<lparr>success = False, error = Some ''Missing required field: link'', data = None\<rparr>
        else if urlValue = [] then
          \<lparr>success = False, error = Some ''Missing required field: url'', data = None\<rparr>
        else
          (let parts = js_split CHR ''/'' linkValue;
               domain = hd parts;
               keyParts = tl parts;
               joined = js_join ''/'' keyParts;
               key = (if joined = [] then ''_root'' else joined)
           in
             if \<not> validURL env urlValue then
               \<lparr>success = False, error = Some (''Invalid URL format: '' @ urlValue), data = None\<rparr>
             else
               \<lparr>success = True, error = None,
                data = Some
                  \<lparr>domain = domain, key = key, url = urlValue,
                   title = optionalValue env row (m_title mapping),
                   description = optionalValue env row (m_description mapping),
                   tags =
                     (case optionalValue env row (m_tags mapping) of
                        None \<Rightarrow> None
                      | Some t \<Rightarrow>
                          Some (map (normalizeString env)
                                  (filter (\<lambda>tag. tag \<noteq> [])
                                     (map (trim env) (js_split CHR '','' t))))),
                   createdAt =
                     (case optionalValue env row (m_createdAt mapping) of
                        None \<Rightarrow> None
                      | Some d \<Rightarrow> parseDateTime env d)\<rparr>\<rparr>))"


section \<open>The cursor store\<close>

text \<open>\<^verbatim>\<open>interface ErrorLink\<close>.\<close>

record ErrorLink =
  el_domain :: string
  el_key :: string
  el_error :: string

text \<open>
  The key-value store, by the type of value a key holds: counters (\<^verbatim>\<open>get\<close>,
  \<^verbatim>\<open>set\<close>, \<^verbatim>\<open>incrby\<close>), lists (\<^verbatim>\<open>rpush\<close>, \<^verbatim>\<open>lrange\<close>) and sets
  (\<^verbatim>\<open>sadd\<close>, \<^verbatim>\<open>smembers\<close>). The pipeline only ever writes row counts, so a counter
  is a natural number. Like the queue and the notifications further down, the \<^verbatim>\<open>set\<close>
  commands the store has received are kept in the order they came (\<open>r_sets\<close>): the
  values a key has been given over time.
\<close>

record redis_store =
  r_num :: "string \<rightharpoonup> nat"
  r_list :: "string \<rightharpoonup> ErrorLink list"
  r_set :: "string \<rightharpoonup> string set"
  r_sets :: "(string \<times> nat) list"

definition redis_set :: "redis_store \<Rightarrow> string \<Rightarrow> nat \<Rightarrow> redis_store" where
  "redis_set r k v = r\<lparr>r_num := (r_num r)(k \<mapsto> v), r_sets := r_sets r @ [(k, v)]\<rparr>"

text \<open>The values a key has been \<^verbatim>\<open>set\<close> to, oldest first.\<close>

definition persisted :: "redis_store \<Rightarrow> string \<Rightarrow> nat list" where
  "persisted r k = map snd (filter (\<lambda>e. fst e = k) (r_sets r))"

text \<open>\<^verbatim>\<open>parseInt((await redis.get(k)) || "0")\<close>: a missing key reads as 0.\<close>

definition redis_get_int :: "redis_store \<Rightarrow> string \<Rightarrow> nat" where
  "redis_get_int r k = (case r_num r k of None \<Rightarrow> 0 | Some n \<Rightarrow> n)"

definition redis_incrby :: "redis_store \<Rightarrow> string \<Rightarrow> nat \<Rightarrow> redis_store" where
  "redis_incrby r k n = r\<lparr>r_num := (r_num r)(k \<mapsto> redis_get_int r k + n)\<rparr>"

definition redis_lrange_all :: "redis_store \<Rightarrow> string \<Rightarrow> ErrorLink list" where
  "redis_lrange_all r k = (case r_list r k of None \<Rightarrow> [] | Some xs \<Rightarrow> xs)"

definition redis_rpush :: "redis_store \<Rightarrow> string \<Rightarrow> ErrorLink list \<Rightarrow> redis_store" where
  "redis_rpush r k xs = r\<lparr>r_list := (r_list r)(k \<mapsto> redis_lrange_all r k @ xs)\<rparr>"

definition redis_smembers :: "redis_store \<Rightarrow> string \<Rightarrow> string set" where
  "redis_smembers r k = (case r_set r k of None \<Rightarrow> {} | Some s \<Rightarrow> s)"

definition redis_sadd :: "redis_store \<Rightarrow> string \<Rightarrow> string list \<Rightarrow> redis_store" where
  "redis_sadd r k xs = r\<lparr>r_set := (r_set r)(k \<mapsto> redis_smembers r k \<union> set xs)\<rparr>"

definition redis_del :: "redis_store \<Rightarrow> string \<Rightarrow> redis_store" where
  "redis_del r k =
     r\<lparr>r_num := (r_num r)(k := None), r_list := (r_list r)(k := None),
       r_set := (r_set r)(k := None)\<rparr>"

text \<open>The request body of the import endpoint (\<^verbatim>\<open>payloadSchema\<close>).\<close>

record import_payload =
  payload_id :: string
  workspaceId :: string
  userId :: string
  folderId :: "string option"
  payload_url :: string
  mapping :: link_mapping

text \<open>\<^verbatim>\<open>const redisKey = `import:csv:${workspaceId}:${id}`\<close>.\<close>

definition redisKey :: "import_payload \<Rightarrow> string" where
  "redisKey payload = ''import:csv:'' @ workspaceId payload @ '':'' @ payload_id payload"

definition cursorKey :: "import_payload \<Rightarrow> string" where
  "cursorKey payload = redisKey payload @ '':cursor''"

definition createdKey :: "import_payload \<Rightarrow> string" where
  "createdKey payload = redisKey payload @ '':created''"

definition failedKey :: "import_payload \<Rightarrow> string" where
  "failedKey payload = redisKey payload @ '':failed''"

definition domainsKey :: "import_payload \<Rightarrow> string" where
  "domainsKey payload = redisKey payload @ '':domains''"


section \<open>The batch processor: the streaming parse\<close>

definition MAX_ROWS_PER_EXECUTION :: nat where
  "MAX_ROWS_PER_EXECUTION = 25"

text \<open>
  The variables the \<^verbatim>\<open>step\<close> and \<^verbatim>\<open>complete\<close> callbacks of \<^verbatim>\<open>POST\<close> close over,
  the store they write, and the parser's side of the conversation: whether
  \<^verbatim>\<open>parser.abort()\<close> was called, and how many rows the parser has read.
\<close>

record parse_state =
  mappedLinks :: "MapperResult list"
  currentRow :: nat
  isComplete :: bool
  aborted :: bool
  rowsParsed :: nat
  ps_redis :: redis_store

text \<open>
  What \<^verbatim>\<open>results.data.length\<close> evaluates to in the \<^verbatim>\<open>complete\<close> callback. With a
  \<^verbatim>\<open>step\<close> callback the parser does not collect the rows. At the end of the stream
  \<^verbatim>\<open>complete\<close> gets the parser's empty result list, of length 0. After
  \<^verbatim>\<open>parser.abort()\<close> it gets the results of the current \<^verbatim>\<open>step\<close> call, whose
  \<^verbatim>\<open>data\<close> is the row object: its \<^verbatim>\<open>length\<close> is the cell of a column named
  \<^verbatim>\<open>length\<close> when the file has one, and undefined otherwise.
\<close>

datatype js_length = LUndefined | LNumber nat | LString string

definition row_length :: "csv_row \<Rightarrow> js_length" where
  "row_length row = (case map_of row ''length'' of None \<Rightarrow> LUndefined | Some s \<Rightarrow> LString s)"

text \<open>The \<^verbatim>\<open>complete\<close> callback (lines 96 to 99): \<^verbatim>\<open>currentRow >= results.data.length\<close>;
  a comparison with undefined is false.\<close>

definition complete :: "mapper_env \<Rightarrow> js_length \<Rightarrow> parse_state \<Rightarrow> parse_state" where
  "complete env len st =
     st\<lparr>isComplete :=
         (case len of
            LUndefined \<Rightarrow> False
          | LNumber n \<Rightarrow> currentRow st \<ge> n
          | LString s \<Rightarrow> number_ge_string env (currentRow st) s)\<rparr>"

text \<open>\<^verbatim>\<open>parser.abort()\<close>: the parse is over, and the parser calls \<^verbatim>\<open>complete\<close> with
  the results of the \<^verbatim>\<open>step\<close> call it is in.\<close>

definition parser_abort :: "mapper_env \<Rightarrow> csv_row \<Rightarrow> parse_state \<Rightarrow> parse_state" where
  "parser_abort env row st = complete env (row_length row) (st\<lparr>aborted := True\<rparr>)"

text \<open>
  The \<^verbatim>\<open>step\<close> callback on one row. The parser is paused on entry and resumed on
  every path but the aborting one, so the next row is not delivered before this call is
  over, the awaited \<^verbatim>\<open>redis.set\<close> included.
\<close>

definition step ::
  "mapper_env \<Rightarrow> import_payload \<Rightarrow> nat \<Rightarrow> csv_row \<Rightarrow> parse_state \<Rightarrow> parse_state" where
  "step env payload cursor row st =
     (if currentRow st < cursor then st\<lparr>currentRow := currentRow st + 1\<rparr>
      else if int (currentRow st) - int cursor \<ge> int MAX_ROWS_PER_EXECUTION then
        parser_abort env row st
      else
        st\<lparr>mappedLinks := mappedLinks st @ [mapCsvRowToLink env row (mapping payload)],
           currentRow := currentRow st + 1,
           ps_redis := redis_set (ps_redis st) (cursorKey payload) (currentRow st + 1)\<rparr>)"

text \<open>The parser's loop: each row of the stream is read and handed to \<^verbatim>\<open>step\<close>, in
  order, until the stream ends or \<^verbatim>\<open>step\<close> aborts the parse.\<close>

fun Papa_rows ::
  "mapper_env \<Rightarrow> import_payload \<Rightarrow> nat \<Rightarrow> csv_row list \<Rightarrow> parse_state \<Rightarrow> parse_state" where
  "Papa_rows env payload cursor [] st = st"
| "Papa_rows env payload cursor (row # rows) st =
     (let st' = step env payload cursor row (st\<lparr>rowsParsed := rowsParsed st + 1\<rparr>)
      in if aborted st' then st' else Papa_rows env payload cursor rows st')"

text \<open>The initial variables of \<^verbatim>\<open>POST\<close> (lines 87 to 89).\<close>

definition parse_init :: "redis_store \<Rightarrow> parse_state" where
  "parse_init r =
     \<lparr>mappedLinks = [], currentRow = 0, isComplete = False, aborted = False,
      rowsParsed = 0, ps_redis = r\<rparr>"

text \<open>\<^verbatim>\<open>Papa.parse\<close>: the loop, and at the end of a stream that was not aborted the
  \<^verbatim>\<open>complete\<close> callback, with the empty result list.\<close>

definition Papa_parse ::
  "mapper_env \<Rightarrow> import_payload \<Rightarrow> nat \<Rightarrow> csv_row list \<Rightarrow> redis_store \<Rightarrow> parse_state" where
  "Papa_parse env payload cursor rows r =
     (let st = Papa_rows env payload cursor rows (parse_init r)
      in if aborted st then st else complete env (LNumber 0) st)"


section \<open>The world the import endpoint acts on\<close>

text \<open>A row of the link table, with the columns the pipeline reads or decides.\<close>

record link_row =
  l_projectId :: string
  l_shortLink :: string
  l_domain :: string
  l_key :: string
  l_url :: string

text \<open>The object handed to \<^verbatim>\<open>createLinkBodySchema.parse\<close>: the mapped link without
  its \<^verbatim>\<open>tags\<close>, with \<^verbatim>\<open>tagNames\<close> and \<^verbatim>\<open>folderId\<close>.\<close>

record createLinkBody =
  b_domain :: string
  b_key :: string
  b_url :: string
  b_title :: "string option"
  b_description :: "string option"
  b_createdAt :: "int option"
  b_tagNames :: "string list option"
  b_folderId :: "string option"

record ProcessedLinkProps = createLinkBody +
  pl_projectId :: string
  pl_userId :: string

text \<open>What \<^verbatim>\<open>processLink\<close> resolves to: the link and, when it is rejected, the
  reason.\<close>

record processLink_result =
  res_link :: ProcessedLinkProps
  res_error :: "string option"

text \<open>A message published to the queue: destination, body, delay in seconds.\<close>

record qstash_message =
  msg_url :: string
  msg_body :: "import_payload option"
  msg_delay :: "real option"

text \<open>The argument of \<^verbatim>\<open>sendCsvImportEmails\<close>.\<close>

record import_email =
  e_workspaceId :: string
  e_count :: nat
  e_domains :: "string set"
  e_errorLinks :: "ErrorLink list"

text \<open>
  The collaborators' state: the cursor store, the object storage (a file is the list of
  rows the parser reads from it), the tag, domain, link and project tables (tags as
  project and name, domains as project and slug, projects as id and plan), the queue of
  published messages and the notifications sent.
\<close>

record world =
  redis :: redis_store
  files :: "string \<rightharpoonup> csv_row list"
  tagTable :: "(string \<times> string) list"
  domainTable :: "(string \<times> string) list"
  linkTable :: "link_row list"
  projectTable :: "string \<rightharpoonup> string"
  queue :: "qstash_message list"
  emails :: "import_email list"

text \<open>
  What the endpoint imports and this repository's sources here do not hold, as parameters:
  the utilities \<^verbatim>\<open>linkConstructorSimple\<close> (on a link's domain and key),
  \<^verbatim>\<open>DUB_DOMAINS_ARRAY\<close> and \<^verbatim>\<open>APP_DOMAIN_WITH_NGROK\<close>; the built-in
  \<^verbatim>\<open>toLowerCase\<close>; \<^verbatim>\<open>createLinkBodySchema.parse\<close>, which returns the parsed body or
  throws; \<^verbatim>\<open>processLink\<close>, which may read the world and is called with the body, the
  workspace's id and plan, the user and \<^verbatim>\<open>bulk\<close>; the effect of
  \<^verbatim>\<open>bulkCreateLinks\<close> and of the placeholder \<^verbatim>\<open>createLink\<close> (project, user, domain)
  on the link table. The last two fields say which of the calls whose failure the source
  tolerates (\<^verbatim>\<open>Promise.allSettled\<close>) are fulfilled: the creation of the missing domains,
  and the five clean-up calls by their index. Every other call of a collaborator returns.
\<close>

record import_env =
  mapper :: mapper_env
  linkConstructorSimple :: "string \<Rightarrow> string \<Rightarrow> string"
  DUB_DOMAINS_ARRAY :: "string list"
  APP_DOMAIN_WITH_NGROK :: string
  toLowerCase :: "string \<Rightarrow> string"
  createLinkBodySchema_parse :: "createLinkBody \<Rightarrow> string + createLinkBody"
  processLink ::
    "world \<Rightarrow> createLinkBody \<Rightarrow> string \<Rightarrow> string \<Rightarrow> string \<Rightarrow> bool \<Rightarrow> processLink_result"
  bulkCreateLinks :: "ProcessedLinkProps list \<Rightarrow> link_row list \<Rightarrow> link_row list"
  createLink :: "string \<Rightarrow> string \<Rightarrow> string \<Rightarrow> link_row list \<Rightarrow> link_row list"
  domainCreateManyOk :: bool
  cleanupOk :: "nat \<Rightarrow> bool"


section \<open>The link materializer: \<^verbatim>\<open>processMappedLinks\<close>\<close>

definition failedMappings :: "MapperResult list \<Rightarrow> MapperResult list" where
  "failedMappings ml = filter (\<lambda>result. \<not> success result \<and> truthy (error result)) ml"

definition successfulMappings :: "MapperResult list \<Rightarrow> MapperResult list" where
  "successfulMappings ml = filter (\<lambda>result. success result \<and> data result \<noteq> None) ml"

text \<open>\<^verbatim>\<open>createMany\<close> with \<^verbatim>\<open>skipDuplicates: true\<close>: a row that is already there is
  skipped.\<close>

definition createMany_skipDuplicates :: "'a list \<Rightarrow> 'a list \<Rightarrow> 'a list" where
  "createMany_skipDuplicates rows table =
     fold (\<lambda>r t. if r \<in> set t then t else t @ [r]) rows table"

definition selectedTags :: "MapperResult list \<Rightarrow> string list" where
  "selectedTags succ =
     filter (\<lambda>tag. tag \<noteq> [])
       (concat (map (\<lambda>result. case tags (the (data result)) of None \<Rightarrow> [] | Some ts \<Rightarrow> ts) succ))"

definition processTags :: "import_env \<Rightarrow> import_payload \<Rightarrow> MapperResult list \<Rightarrow> world \<Rightarrow> world" where
  "processTags env payload succ w =
     (let tgs = filter (\<lambda>t. fst t = workspaceId payload) (tagTable w);
          tagsNotInWorkspace =
            filter (\<lambda>tag. \<not> list_ex (\<lambda>t. toLowerCase env (snd t) = toLowerCase env tag) tgs)
              (selectedTags succ)
      in if tagsNotInWorkspace \<noteq> [] then
           w\<lparr>tagTable :=
               createMany_skipDuplicates
                 (map (\<lambda>name. (workspaceId payload, name)) tagsNotInWorkspace) (tagTable w)\<rparr>
         else w)"

definition selectedDomains :: "MapperResult list \<Rightarrow> string list" where
  "selectedDomains succ =
     filter (\<lambda>d. d \<noteq> []) (map (\<lambda>result. domain (the (data result))) succ)"

text \<open>The selected domains that are neither the workspace's nor the platform's (lines 372
  to 376).\<close>

definition domainsNotInWorkspace ::
  "import_env \<Rightarrow> import_payload \<Rightarrow> MapperResult list \<Rightarrow> world \<Rightarrow> string list" where
  "domainsNotInWorkspace env payload succ w =
     (let doms = filter (\<lambda>d. fst d = workspaceId payload) (domainTable w)
      in filter (\<lambda>dm. \<not> list_ex (\<lambda>d. snd d = dm) doms \<and> dm \<notin> set (DUB_DOMAINS_ARRAY env))
           (selectedDomains succ))"

text \<open>
  The domains step. Of the three entries of \<^verbatim>\<open>Promise.allSettled\<close> the first is the
  \<^verbatim>\<open>createMany\<close> of the missing domains; the registration with the hosting provider
  changes nothing of this world; the placeholder links are what \<^verbatim>\<open>createLink\<close> does to
  the link table, one missing domain after the other. The source does not wait for the
  placeholder links (their promises sit in arrays); \<^verbatim>\<open>createLink\<close> being a parameter,
  whatever part of them has reached the link table when it is queried is covered, and so
  is the case that none has.
\<close>

definition processDomains :: "import_env \<Rightarrow> import_payload \<Rightarrow> MapperResult list \<Rightarrow> world \<Rightarrow> world" where
  "processDomains env payload succ w =
     (let missing = domainsNotInWorkspace env payload succ w;
          w1 =
            (if missing \<noteq> [] then
               (let wa =
                      (if domainCreateManyOk env then
                         w\<lparr>domainTable :=
                             createMany_skipDuplicates
                               (map (\<lambda>slug. (workspaceId payload, slug)) missing)
                               (domainTable w)\<rparr>
                       else w)
                in wa\<lparr>linkTable :=
                        fold (createLink env (workspaceId payload) (userId payload))
                          missing (linkTable wa)\<rparr>)
             else w)
      in if selectedDomains succ \<noteq> [] then
           w1\<lparr>redis := redis_sadd (redis w1) (domainsKey payload) (selectedDomains succ)\<rparr>
         else w1)"

text \<open>The world when the link table is queried for existing links: after the tags and the
  domains steps.\<close>

definition world_at_dedup :: "import_env \<Rightarrow> MapperResult list \<Rightarrow> import_payload \<Rightarrow> world \<Rightarrow> world" where
  "world_at_dedup env ml payload w =
     processDomains env payload (successfulMappings ml)
       (processTags env payload (successfulMappings ml) w)"

text \<open>\<^verbatim>\<open>let linksToCreate = successfulMappings.map((result) => result.data)\<close>; the
  filter before it leaves only results that have their data.\<close>

definition candidateLinks :: "MapperResult list \<Rightarrow> link_data list" where
  "candidateLinks ml = map (\<lambda>result. the (data result)) (successfulMappings ml)"

definition canonical :: "import_env \<Rightarrow> link_data \<Rightarrow> string" where
  "canonical env link = linkConstructorSimple env (domain link) (key link)"

text \<open>\<^verbatim>\<open>prisma.link.findMany\<close> of lines 413 to 423.\<close>

definition existingLinks :: "import_env \<Rightarrow> string \<Rightarrow> link_data list \<Rightarrow> link_row list \<Rightarrow> link_row list" where
  "existingLinks env wsId cands table =
     filter (\<lambda>l. l_projectId l = wsId \<and> l_shortLink l \<in> set (map (canonical env) cands)) table"

text \<open>The filter of lines 429 to 432.\<close>

definition dedupLinks :: "import_env \<Rightarrow> link_row list \<Rightarrow> link_data list \<Rightarrow> link_data list" where
  "dedupLinks env existing cands =
     filter (\<lambda>link. \<not> list_ex (\<lambda>l. l_shortLink l = canonical env link) existing) cands"


text \<open>The list \<^verbatim>\<open>linksToCreate\<close> as it is when the links are handed to validation.\<close>

definition linksToCreate :: "import_env \<Rightarrow> MapperResult list \<Rightarrow> import_payload \<Rightarrow> world \<Rightarrow> link_data list" where
  "linksToCreate env ml payload w =
     dedupLinks env
       (existingLinks env (workspaceId payload) (candidateLinks ml)
          (linkTable (world_at_dedup env ml payload w)))
       (candidateLinks ml)"

text \<open>\<^verbatim>\<open>{ ...link, tagNames: tags || undefined, folderId }\<close>.\<close>

definition toBody :: "string option \<Rightarrow> link_data \<Rightarrow> createLinkBody" where
  "toBody fid link =
     \<lparr>b_domain = domain link, b_key = key link, b_url = url link, b_title = title link,
      b_description = description link, b_createdAt = createdAt link,
      b_tagNames = tags link, b_folderId = fid\<rparr>"

text \<open>The schema's \<^verbatim>\<open>parse\<close> over the links, in order: the first one that throws ends
  the \<^verbatim>\<open>map\<close>.\<close>

fun parse_all :: "import_env \<Rightarrow> createLinkBody list \<Rightarrow> string + createLinkBody list" where
  "parse_all env [] = Inr []"
| "parse_all env (b # bs) =
     (case createLinkBodySchema_parse env b of
        Inl e \<Rightarrow> Inl e
      | Inr b' \<Rightarrow> (case parse_all env bs of Inl e \<Rightarrow> Inl e | Inr bs' \<Rightarrow> Inr (b' # bs')))"

definition validLinks :: "processLink_result list \<Rightarrow> ProcessedLinkProps list" where
  "validLinks processedLinks = map res_link (filter (\<lambda>r. res_error r = None) processedLinks)"

definition errorLinks :: "processLink_result list \<Rightarrow> ErrorLink list" where
  "errorLinks processedLinks =
     map (\<lambda>r. \<lparr>el_domain = b_domain (res_link r), el_key = b_key (res_link r),
               el_error = the (res_error r)\<rparr>)
       (filter (\<lambda>r. res_error r \<noteq> None) processedLinks)"

text \<open>
  The second half of \<^verbatim>\<open>processMappedLinks\<close>, from line 444 on, once every body has
  passed the schema: every body goes through \<^verbatim>\<open>processLink\<close>; the links without an
  error are created in bulk and counted, the others are appended to the failed list.
\<close>

definition processedLinks ::
  "import_env \<Rightarrow> import_payload \<Rightarrow> world \<Rightarrow> string \<Rightarrow> createLinkBody list \<Rightarrow> processLink_result list" where
  "processedLinks env payload w plan bodies =
     map (\<lambda>b. processLink env w b (workspaceId payload) plan (userId payload) True) bodies"

definition materialize ::
  "import_env \<Rightarrow> import_payload \<Rightarrow> world \<Rightarrow> string \<Rightarrow> createLinkBody list \<Rightarrow> world" where
  "materialize env payload w plan bodies =
     (let valid = validLinks (processedLinks env payload w plan bodies);
          errs = errorLinks (processedLinks env payload w plan bodies);
          w3 =
            (if valid \<noteq> [] then
               w\<lparr>linkTable := bulkCreateLinks env valid (linkTable w),
                 redis := redis_incrby (redis w) (createdKey payload) (length valid)\<rparr>
             else w)
      in if errs \<noteq> [] then
           w3\<lparr>redis := redis_rpush (redis w3) (failedKey payload) errs\<rparr>
         else w3)"

text \<open>
  \<^verbatim>\<open>processMappedLinks\<close>. The result is the world it leaves and, when it throws, the
  message: \<^verbatim>\<open>findUniqueOrThrow\<close> throws for a workspace that does not exist, the
  schema's \<^verbatim>\<open>parse\<close> for a body it does not accept.
\<close>

definition processMappedLinks ::
  "import_env \<Rightarrow> MapperResult list \<Rightarrow> import_payload \<Rightarrow> world \<Rightarrow> string option \<times> world" where
  "processMappedLinks env ml payload w =
     (if ml = [] then (None, w)
      else
        (let w2 = world_at_dedup env ml payload w;
             toCreate = linksToCreate env ml payload w
         in case projectTable w2 (workspaceId payload) of
              None \<Rightarrow> (Some ''No Project found'', w2)
            | Some plan \<Rightarrow>
                (case parse_all env (map (toBody (folderId payload)) toCreate) of
                   Inl e \<Rightarrow> (Some e, w2)
                 | Inr bodies \<Rightarrow> (None, materialize env payload w2 plan bodies))))"






section \<open>The endpoint \<^verbatim>\<open>POST\<close> and the job rescheduler\<close>

datatype response = OK | ErrorResponse string

text \<open>The continuation message of lines 138 to 141.\<close>

definition continuation :: "import_env \<Rightarrow> import_payload \<Rightarrow> qstash_message" where
  "continuation env payload =
     \<lparr>msg_url = APP_DOMAIN_WITH_NGROK env @ ''/api/cron/import/csv'',
      msg_body = Some payload, msg_delay = None\<rparr>"

text \<open>The \<^verbatim>\<open>else\<close> branch of lines 142 to 184: the summary is read from the store and
  sent, then the four keys and the file are deleted; a clean-up call that is rejected is
  logged and leaves its target as it is.\<close>

definition finalize :: "import_env \<Rightarrow> import_payload \<Rightarrow> world \<Rightarrow> world" where
  "finalize env payload w =
     (let errs = redis_lrange_all (redis w) (failedKey payload);
          createdCount = redis_get_int (redis w) (createdKey payload);
          doms = redis_smembers (redis w) (domainsKey payload);
          w1 = w\<lparr>emails := emails w @
                 [\<lparr>e_workspaceId = workspaceId payload, e_count = createdCount,
                   e_domains = doms, e_errorLinks = errs\<rparr>]\<rparr>;
          r0 = (if cleanupOk env 0 then redis_del (redis w1) (cursorKey payload) else redis w1);
          r1 = (if cleanupOk env 1 then redis_del r0 (createdKey payload) else r0);
          r2 = (if cleanupOk env 2 then redis_del r1 (failedKey payload) else r1);
          r3 = (if cleanupOk env 3 then redis_del r2 (domainsKey payload) else r2)
      in w1\<lparr>redis := r3,
            files := (if cleanupOk env 4 then (files w1)(payload_url payload := None)
                      else files w1)\<rparr>)"

text \<open>
  \<^verbatim>\<open>POST\<close>, from the verified and parsed payload on. The \<^verbatim>\<open>catch\<close> of line 187 turns
  every exception into an error response; what was written before stays written.
\<close>

definition POST :: "import_env \<Rightarrow> import_payload \<Rightarrow> world \<Rightarrow> response \<times> world" where
  "POST env payload w =
     (if payload_id payload = [] \<or> payload_url payload = [] then
        (ErrorResponse ''Missing ID or URL for the import file.'', w)
      else
        (let cursor = redis_get_int (redis w) (cursorKey payload)
         in case files w (payload_url payload) of
              None \<Rightarrow> (ErrorResponse ''CSV import file not found.'', w)
            | Some rows \<Rightarrow>
                (let st = Papa_parse (mapper env) payload cursor rows (redis w);
                     w1 = w\<lparr>redis := ps_redis st\<rparr>
                 in case processMappedLinks env (mappedLinks st) payload w1 of
                      (Some e, w2) \<Rightarrow> (ErrorResponse e, w2)
                    | (None, w2) \<Rightarrow>
                        (if int (currentRow st) - int cursor \<ge> int MAX_ROWS_PER_EXECUTION
                            \<and> \<not> isComplete st then
                           (OK, w2\<lparr>queue := queue w2 @ [continuation env payload]\<rparr>)
                         else (OK, finalize env payload w2)))))"


text \<open>
  A job's life, one invocation after the other: the first invocation and, for as long as
  the job is not finalized (no summary has been sent), the next one, triggered by the
  continuation message or by the redelivery of a message whose invocation failed, each in
  the world the one before has left; at most \<open>n\<close> invocations.
\<close>

fun run_job :: "nat \<Rightarrow> import_env \<Rightarrow> import_payload \<Rightarrow> world \<Rightarrow> world" where
  "run_job 0 env payload w = w"
| "run_job (Suc n) env payload w =
     (let w' = snd (POST env payload w)
      in if emails w' = emails w then run_job n env payload w' else w')"


section \<open>The test-completion scheduler\<close>

text \<open>The fields of \<^verbatim>\<open>ExpandedLink\<close> that \<^verbatim>\<open>scheduleTestCompletion\<close> reads; the
  completion time is a time value in milliseconds.\<close>

record ExpandedLink =
  link_id :: string
  testVariants :: "(string \<times> nat) list option"
  testCompletedAt :: "int option"

definition completionUrl :: "string \<Rightarrow> ExpandedLink \<Rightarrow> string" where
  "completionUrl app link = app @ ''/api/cron/links/'' @ link_id link @ ''/complete-tests''"

text \<open>
  The \<^verbatim>\<open>DELETE\<close> request to the queue's messages endpoint with the completion URL as
  filter. When the request succeeds the pending messages for that URL are gone; when it
  fails (the \<^verbatim>\<open>fetch\<close> throws, or the response is not ok) the \<^verbatim>\<open>catch\<close> logs it
  and the queue is as before.
\<close>

definition cancelScheduled :: "bool \<Rightarrow> string \<Rightarrow> qstash_message list \<Rightarrow> qstash_message list" where
  "cancelScheduled deleteOk u q = (if deleteOk then filter (\<lambda>m. msg_url m \<noteq> u) q else q)"

text \<open>
  \<^verbatim>\<open>scheduleTestCompletion\<close> on the queue of pending messages. \<^verbatim>\<open>deleteOk\<close> is the
  outcome of the \<^verbatim>\<open>DELETE\<close> request, \<^verbatim>\<open>now1\<close> and \<^verbatim>\<open>now2\<close> are the two readings of
  the clock (\<^verbatim>\<open>new Date()\<close> in the comparison and in the delay).
\<close>

definition scheduleTestCompletion ::
  "string \<Rightarrow> bool \<Rightarrow> int \<Rightarrow> int \<Rightarrow> ExpandedLink \<Rightarrow> qstash_message list \<Rightarrow> qstash_message list" where
  "scheduleTestCompletion app deleteOk now1 now2 link q =
     (let q1 = cancelScheduled deleteOk (completionUrl app link) q
      in if testVariants link = None then q1
         else (case testCompletedAt link of
                 None \<Rightarrow> q1
               | Some t \<Rightarrow>
                   (if t > now1 then
                      q1 @ [\<lparr>msg_url = completionUrl app link, msg_body = None,
                             msg_delay = Some (real_of_int (t - now2) / 1000)\<rparr>]
                    else q1)))"


section \<open>Sample collaborators and inputs\<close>

text \<open>
  Concrete collaborators and inputs on which the properties below are evaluated. The URL
  check of the sample accepts the strings that start with \<^verbatim>\<open>https://\<close> and go on. Its
  \<^verbatim>\<open>trim\<close> removes the ASCII white space at both ends, which is what the built-in does
  on the sample cells. Its comparison of a number with a string reads a string of decimal
  digits (the empty string is 0) and takes every other string for no number, which is what
  the language does on the strings the samples use.
\<close>

definition sample_ws :: "char \<Rightarrow> bool" where
  "sample_ws c = (c = CHR '' '' \<or> c = CHR 0x09 \<or> c = CHR 0x0A \<or> c = CHR 0x0B
              \<or> c = CHR 0x0C \<or> c = CHR 0x0D)"

definition sample_trim :: "string \<Rightarrow> string" where
  "sample_trim s = rev (dropWhile sample_ws (rev (dropWhile sample_ws s)))"

definition digit_value :: "char \<Rightarrow> nat option" where
  "digit_value =
     map_of [(CHR ''0'', 0), (CHR ''1'', 1), (CHR ''2'', 2), (CHR ''3'', 3), (CHR ''4'', 4),
             (CHR ''5'', 5), (CHR ''6'', 6), (CHR ''7'', 7), (CHR ''8'', 8), (CHR ''9'', 9)]"

fun digits_value :: "nat \<Rightarrow> string \<Rightarrow> nat option" where
  "digits_value acc [] = Some acc"
| "digits_value acc (c # cs) =
     (case digit_value c of None \<Rightarrow> None | Some d \<Rightarrow> digits_value (10 * acc + d) cs)"

definition sample_ge :: "nat \<Rightarrow> string \<Rightarrow> bool" where
  "sample_ge n s = (case digits_value 0 s of None \<Rightarrow> False | Some v \<Rightarrow> v \<le> n)"

definition sample_mapper_env :: mapper_env where
  "sample_mapper_env =
     \<lparr>normalizeString = (\<lambda>s. s),
      validURL = (\<lambda>s. take 8 s = ''https://'' \<and> 8 < length s),
      parseDateTime = (\<lambda>s. None),
      trim = sample_trim,
      number_ge_string = sample_ge\<rparr>"

definition sample_mapping :: link_mapping where
  "sample_mapping =
     \<lparr>m_link = ''link'', m_url = ''url'', m_title = None, m_description = None,
      m_tags = None, m_createdAt = None\<rparr>"

definition sample_link :: ExpandedLink where
  "sample_link =
     \<lparr>link_id = ''link_1'',
      testVariants = Some [(''https://a.example'', 50), (''https://b.example'', 50)],
      testCompletedAt = Some 5000\<rparr>"

definition sample_payload :: import_payload where
  "sample_payload =
     \<lparr>payload_id = ''job_1'', workspaceId = ''ws_1'', userId = ''user_1'', folderId = None,
      payload_url = ''https://files.example/import.csv'', mapping = sample_mapping\<rparr>"

definition empty_redis :: redis_store where
  "empty_redis = \<lparr>r_num = Map.empty, r_list = Map.empty, r_set = Map.empty, r_sets = []\<rparr>"

text \<open>Row \<open>n\<close> of the sample file: the short link \<^verbatim>\<open>example.com/\<close> followed by
  \<open>n + 1\<close> letters.\<close>

definition sample_row :: "nat \<Rightarrow> csv_row" where
  "sample_row n =
     [(''link'', ''example.com/'' @ replicate (Suc n) CHR ''a''), (''url'', ''https://dub.co/home'')]"

definition sample_rows :: "nat \<Rightarrow> csv_row list" where
  "sample_rows n = map sample_row [0..<n]"

text \<open>
  Sample collaborators: the canonical string of a link is its domain, followed by
  \<^verbatim>\<open>/\<close> and the key unless the key is \<^verbatim>\<open>_root\<close>; the schema accepts every body as it
  is; \<^verbatim>\<open>processLink\<close> rejects the key \<^verbatim>\<open>bad\<close> and passes every other link on with
  the workspace and the user; the bulk insert appends a row for every link, under its
  canonical string; the placeholder link of a domain is its root link; every tolerated
  call is fulfilled.
\<close>

definition sample_processLink ::
  "world \<Rightarrow> createLinkBody \<Rightarrow> string \<Rightarrow> string \<Rightarrow> string \<Rightarrow> bool \<Rightarrow> processLink_result" where
  "sample_processLink w b wsId plan uid bulk =
     \<lparr>res_link =
        \<lparr>b_domain = b_domain b, b_key = b_key b, b_url = b_url b, b_title = b_title b,
         b_description = b_description b, b_createdAt = b_createdAt b,
         b_tagNames = b_tagNames b, b_folderId = b_folderId b,
         pl_projectId = wsId, pl_userId = uid\<rparr>,
      res_error = (if b_key b = ''bad'' then Some ''Invalid key.'' else None)\<rparr>"

definition sample_canonical :: "string \<Rightarrow> string \<Rightarrow> string" where
  "sample_canonical d k = (if k = ''_root'' then d else d @ ''/'' @ k)"

definition sample_bulkCreateLinks :: "ProcessedLinkProps list \<Rightarrow> link_row list \<Rightarrow> link_row list" where
  "sample_bulkCreateLinks links table =
     table @ map (\<lambda>l. \<lparr>l_projectId = pl_projectId l,
                        l_shortLink = sample_canonical (b_domain l) (b_key l),
                        l_domain = b_domain l, l_key = b_key l, l_url = b_url l\<rparr>) links"

definition sample_env :: import_env where
  "sample_env =
     \<lparr>mapper = sample_mapper_env,
      linkConstructorSimple = sample_canonical,
      DUB_DOMAINS_ARRAY = [''dub.sh''],
      APP_DOMAIN_WITH_NGROK = ''https://app.dub.co'',
      toLowerCase = (\<lambda>s. s),
      createLinkBodySchema_parse = Inr,
      processLink = sample_processLink,
      bulkCreateLinks = sample_bulkCreateLinks,
      createLink = (\<lambda>pid uid d table.
        table @ [\<lparr>l_projectId = pid, l_shortLink = d, l_domain = d, l_key = ''_root'',
                  l_url = []\<rparr>]),
      domainCreateManyOk = True,
      cleanupOk = (\<lambda>i. True)\<rparr>"

text \<open>A world with the workspace, its domain \<^verbatim>\<open>example.com\<close> and a file of \<open>n\<close>
  rows, nothing else.\<close>

definition sample_world :: "nat \<Rightarrow> world" where
  "sample_world n =
     \<lparr>redis = empty_redis,
      files = [payload_url sample_payload \<mapsto> sample_rows n],
      tagTable = [],
      domainTable = [(''ws_1'', ''example.com'')],
      linkTable = [],
      projectTable = [''ws_1'' \<mapsto> ''pro''],
      queue = [],
      emails = []\<rparr>"








text \<open>The worlds the first, the second and the third invocation leave for the sample file
  of 60 rows.\<close>

definition sample_world_a :: world where
  "sample_world_a = snd (POST sample_env sample_payload (sample_world 60))"

definition sample_world_b :: world where
  "sample_world_b = snd (POST sample_env sample_payload sample_world_a)"

definition sample_world_c :: world where
  "sample_world_c = snd (POST sample_env sample_payload sample_world_b)"











text \<open>The sample file with a third column, \<^verbatim>\<open>length\<close>, that holds \<^verbatim>\<open>0\<close> in every
  row, and the sample world with that file.\<close>

definition length_row :: "nat \<Rightarrow> csv_row" where
  "length_row n = sample_row n @ [(''length'', ''0'')]"

definition length_rows :: "nat \<Rightarrow> csv_row list" where
  "length_rows n = map length_row [0..<n]"

definition length_world :: world where
  "length_world = (sample_world 60)\<lparr>files := [payload_url sample_payload \<mapsto> length_rows 60]\<rparr>"



section \<open>Properties of the row mapper\<close>

lemma js_split_not_Nil: "js_split sep s \<noteq> []"
  by (induction s) (auto split: list.splits)

lemma js_split_no_sep: "sep \<notin> set s \<Longrightarrow> js_split sep s = [s]"
  by (induction s) auto

lemma js_split_append_sep:
  "sep \<notin> set d \<Longrightarrow> js_split sep (d @ sep # rest) = d # js_split sep rest"
  by (induction d) auto

lemma js_join_Cons: "ps \<noteq> [] \<Longrightarrow> js_join sep (p # ps) = p @ sep @ js_join sep ps"
  by (cases ps) auto

text \<open>Joining the pieces of a split gives the string back.\<close>

lemma js_join_split: "js_join [sep] (js_split sep s) = s"
proof (induction s)
  case Nil
  show ?case by simp
next
  case (Cons c cs)
  show ?case
  proof (cases "c = sep")
    case True
    with Cons show ?thesis by (simp add: js_join_Cons js_split_not_Nil)
  next
    case False
    obtain p ps where sp: "js_split sep cs = p # ps"
      using js_split_not_Nil [of sep cs] by (cases "js_split sep cs") auto
    with Cons False show ?thesis by (cases ps) auto
  qed
qed

lemma mapCsvRowToLink_success_data:
  assumes "success (mapCsvRowToLink env row mp)"
  shows "\<exists>d. data (mapCsvRowToLink env row mp) = Some d
           \<and> domain d = hd (js_split CHR ''/'' (getValueByKey env row (m_link mp)))
           \<and> key d = (let j = js_join ''/'' (tl (js_split CHR ''/'' (getValueByKey env row (m_link mp))))
                      in if j = [] then ''_root'' else j)"
  using assms by (simp add: mapCsvRowToLink_def Let_def split: if_splits)

text \<open>
  C8. Let \<open>linkValue\<close> be what the mapper reads from the row's \<^verbatim>\<open>link\<close> column (the
  cell, trimmed). In every successful result: when \<open>linkValue\<close> has no \<^verbatim>\<open>/\<close>, the
  domain is the whole of it and the key is \<^verbatim>\<open>_root\<close>; when it is a domain, a \<^verbatim>\<open>/\<close>
  and a rest, the domain is the part before the first \<^verbatim>\<open>/\<close> and the key is the rest,
  that is the remaining segments joined by \<^verbatim>\<open>/\<close>, or \<^verbatim>\<open>_root\<close> when nothing remains.
\<close>

theorem mapCsvRowToLink_domain_key:
  assumes "success (mapCsvRowToLink env row mp)"
    and "linkValue = getValueByKey env row (m_link mp)"
  shows "\<exists>d. data (mapCsvRowToLink env row mp) = Some d
           \<and> (CHR ''/'' \<notin> set linkValue \<longrightarrow> domain d = linkValue \<and> key d = ''_root'')
           \<and> (\<forall>dm rest. linkValue = dm @ ''/'' @ rest \<and> CHR ''/'' \<notin> set dm \<longrightarrow>
                 domain d = dm \<and> key d = (if rest = [] then ''_root'' else rest))"
proof -
  obtain d where d: "data (mapCsvRowToLink env row mp) = Some d"
    and dom: "domain d = hd (js_split CHR ''/'' linkValue)"
    and ky: "key d = (let j = js_join ''/'' (tl (js_split CHR ''/'' linkValue))
                      in if j = [] then ''_root'' else j)"
    using mapCsvRowToLink_success_data [OF assms(1)] assms(2) by auto
  have a: "CHR ''/'' \<notin> set linkValue \<longrightarrow> domain d = linkValue \<and> key d = ''_root''"
    using dom ky by (simp add: js_split_no_sep)
  have b: "domain d = dm \<and> key d = (if rest = [] then ''_root'' else rest)"
    if "linkValue = dm @ ''/'' @ rest" "CHR ''/'' \<notin> set dm" for dm rest
  proof -
    have sp: "js_split CHR ''/'' linkValue = dm # js_split CHR ''/'' rest"
      using that js_split_append_sep [of "CHR ''/''" dm rest] by simp
    have "js_join ''/'' (js_split CHR ''/'' rest) = rest"
      using js_join_split [of "CHR ''/''" rest] by simp
    with sp dom ky show ?thesis by (simp add: Let_def)
  qed
  from d a b show ?thesis by blast
qed

text \<open>The row \<^verbatim>\<open>example.com\<close> of the specification, and a row with two path segments.\<close>

theorem mapCsvRowToLink_domain_key_witness:
  "(\<exists>d. data (mapCsvRowToLink sample_mapper_env
             [(''link'', ''example.com''), (''url'', ''https://dub.co/home'')] sample_mapping) = Some d
        \<and> domain d = ''example.com'' \<and> key d = ''_root'')
   \<and> (\<exists>d. data (mapCsvRowToLink sample_mapper_env
             [(''link'', '' example.com/a/b''), (''url'', ''https://dub.co/home'')] sample_mapping) = Some d
        \<and> domain d = ''example.com'' \<and> key d = ''a/b'')"
proof -
  let ?row = "[(''link'', ''example.com''), (''url'', ''https://dub.co/home'')]"
  let ?row2 = "[(''link'', '' example.com/a/b''), (''url'', ''https://dub.co/home'')]"
  have lv: "getValueByKey sample_mapper_env ?row (m_link sample_mapping) = ''example.com''"
    by (simp add: getValueByKey_def sample_mapper_env_def sample_mapping_def sample_trim_def sample_ws_def)
  have s: "success (mapCsvRowToLink sample_mapper_env ?row sample_mapping)"
    by (simp add: mapCsvRowToLink_def getValueByKey_def sample_mapper_env_def
        sample_mapping_def sample_trim_def sample_ws_def Let_def)
  have lv2: "getValueByKey sample_mapper_env ?row2 (m_link sample_mapping) = ''example.com'' @ ''/'' @ ''a/b''"
    by (simp add: getValueByKey_def sample_mapper_env_def sample_mapping_def sample_trim_def sample_ws_def)
  have s2: "success (mapCsvRowToLink sample_mapper_env ?row2 sample_mapping)"
    by (simp add: mapCsvRowToLink_def getValueByKey_def sample_mapper_env_def
        sample_mapping_def sample_trim_def sample_ws_def Let_def)
  have n: "CHR ''/'' \<notin> set ''example.com''" by simp
  from mapCsvRowToLink_domain_key [OF s lv [symmetric]] n
  have one: "\<exists>d. data (mapCsvRowToLink sample_mapper_env ?row sample_mapping) = Some d
        \<and> domain d = ''example.com'' \<and> key d = ''_root''"
    by blast
  from mapCsvRowToLink_domain_key [OF s2 lv2 [symmetric]] obtain d where
    d: "data (mapCsvRowToLink sample_mapper_env ?row2 sample_mapping) = Some d"
    and r: "\<forall>dm rest. ''example.com'' @ ''/'' @ ''a/b'' = dm @ ''/'' @ rest \<and> CHR ''/'' \<notin> set dm \<longrightarrow>
                 domain d = dm \<and> key d = (if rest = [] then ''_root'' else rest)"
    by blast
  from r n have "domain d = ''example.com'' \<and> key d = (if ''a/b'' = [] then ''_root'' else ''a/b'')"
    by blast
  with d have two: "\<exists>d. data (mapCsvRowToLink sample_mapper_env ?row2 sample_mapping) = Some d
        \<and> domain d = ''example.com'' \<and> key d = ''a/b''"
    by simp
  from one two show ?thesis by blast
qed

text \<open>
  C7. A row whose \<^verbatim>\<open>url\<close> value is not accepted by the URL constructor gets a failure
  result without data, with one of the mapper's three messages; the result is among the
  failed mappings of its batch and is no successful mapping, and the batch has the
  successful mappings and the candidate links it would have without the row: nothing of
  the row reaches validation or creation.
\<close>

theorem mapCsvRowToLink_invalid_url:
  assumes "\<not> validURL env (getValueByKey env row (m_url mp))"
  shows "\<not> success (mapCsvRowToLink env row mp)
       \<and> data (mapCsvRowToLink env row mp) = None
       \<and> (error (mapCsvRowToLink env row mp) = Some ''Missing required field: link''
          \<or> error (mapCsvRowToLink env row mp) = Some ''Missing required field: url''
          \<or> error (mapCsvRowToLink env row mp) =
               Some (''Invalid URL format: '' @ getValueByKey env row (m_url mp)))
       \<and> mapCsvRowToLink env row mp \<in> set (failedMappings (ml1 @ mapCsvRowToLink env row mp # ml2))
       \<and> mapCsvRowToLink env row mp \<notin> set (successfulMappings ml)
       \<and> successfulMappings (ml1 @ mapCsvRowToLink env row mp # ml2) = successfulMappings (ml1 @ ml2)
       \<and> candidateLinks (ml1 @ mapCsvRowToLink env row mp # ml2) = candidateLinks (ml1 @ ml2)"
  using assms
  by (auto simp: mapCsvRowToLink_def Let_def successfulMappings_def candidateLinks_def
      failedMappings_def)

theorem mapCsvRowToLink_invalid_url_witness:
  "\<not> validURL sample_mapper_env ''not a url''
   \<and> mapCsvRowToLink sample_mapper_env [(''link'', ''example.com/a''), (''url'', ''not a url'')]
        sample_mapping
      = \<lparr>success = False, error = Some ''Invalid URL format: not a url'', data = None\<rparr>
   \<and> candidateLinks [mapCsvRowToLink sample_mapper_env
        [(''link'', ''example.com/a''), (''url'', ''not a url'')] sample_mapping] = []"
proof -
  let ?row = "[(''link'', ''example.com/a''), (''url'', ''not a url'')]"
  have uv: "getValueByKey sample_mapper_env ?row (m_url sample_mapping) = ''not a url''"
    by (simp add: getValueByKey_def sample_mapper_env_def sample_mapping_def sample_trim_def sample_ws_def)
  have h: "\<not> validURL sample_mapper_env (getValueByKey sample_mapper_env ?row (m_url sample_mapping))"
    by (simp add: uv) (simp add: sample_mapper_env_def)
  have c: "candidateLinks ([] @ []) = []"
    by (simp add: candidateLinks_def successfulMappings_def)
  have m: "mapCsvRowToLink sample_mapper_env ?row sample_mapping
      = \<lparr>success = False, error = Some ''Invalid URL format: not a url'', data = None\<rparr>"
    by (simp add: mapCsvRowToLink_def getValueByKey_def sample_mapper_env_def
        sample_mapping_def sample_trim_def sample_ws_def Let_def)
  from mapCsvRowToLink_invalid_url [OF h, of "[]" "[]"] c
  have "candidateLinks [mapCsvRowToLink sample_mapper_env ?row sample_mapping] = []"
    by simp
  with h uv m show ?thesis by simp
qed


section \<open>Properties of the test-completion scheduler\<close>

lemma cancelScheduled_none_left:
  "filter (\<lambda>m. msg_url m = u) (cancelScheduled True u q) = []"
  by (simp add: cancelScheduled_def filter_empty_conv)

text \<open>
  C9. For a link whose completion time is not after the clock reading of the call, the
  queue after the call is the queue after the cancellation and nothing else: no message is
  published, whatever the outcome of the cancellation request; when that request succeeds,
  no message for the link's completion URL is pending afterwards.
\<close>

theorem scheduleTestCompletion_past:
  assumes "testCompletedAt link = Some t" and "\<not> now1 < t"
  shows "scheduleTestCompletion app deleteOk now1 now2 link q
           = cancelScheduled deleteOk (completionUrl app link) q
         \<and> length (scheduleTestCompletion app deleteOk now1 now2 link q) \<le> length q
         \<and> filter (\<lambda>m. msg_url m = completionUrl app link)
              (scheduleTestCompletion app True now1 now2 link q) = []"
  using assms
  by (auto simp: scheduleTestCompletion_def Let_def cancelScheduled_def filter_empty_conv)

theorem scheduleTestCompletion_past_witness:
  "scheduleTestCompletion ''https://app.dub.co'' True 5000 5001 sample_link
      [\<lparr>msg_url = completionUrl ''https://app.dub.co'' sample_link, msg_body = None,
        msg_delay = Some 3\<rparr>] = []"
proof -
  have h: "testCompletedAt sample_link = Some 5000"
    by (simp add: sample_link_def)
  have n: "\<not> (5000::int) < 5000" by simp
  from scheduleTestCompletion_past [OF h n, of "''https://app.dub.co''" True 5001]
  show ?thesis by (simp add: cancelScheduled_def)
qed

text \<open>
  C6, as stated, fails: the cancellation is an attempt, and when the request of the second
  call fails the \<^verbatim>\<open>catch\<close> logs it and the call goes on to publish. Two calls for a
  link whose completion time is ahead, the second with a failed cancellation, leave two
  pending messages for the link.
\<close>

theorem scheduleTestCompletion_twice_counterexample:
  "\<not> length (filter (\<lambda>m. msg_url m = completionUrl ''https://app.dub.co'' sample_link)
        (scheduleTestCompletion ''https://app.dub.co'' False 1000 1000 sample_link
           (scheduleTestCompletion ''https://app.dub.co'' True 0 0 sample_link []))) \<le> 1"
  by (simp add: scheduleTestCompletion_def cancelScheduled_def sample_link_def Let_def)

text \<open>
  C6, amended. When the cancellation request of the second call succeeds, at most one
  message for the link's completion URL is pending after the two calls, whatever the
  queue was before, whatever the first call's cancellation did, and whatever test
  configuration the link has at the second call.
\<close>

theorem scheduleTestCompletion_at_most_one:
  "length (filter (\<lambda>m. msg_url m = completionUrl app link)
        (scheduleTestCompletion app True nowc nowd (link\<lparr>testVariants := tv, testCompletedAt := tc\<rparr>)
           (scheduleTestCompletion app oka nowa nowb link q))) \<le> 1"
  by (simp add: scheduleTestCompletion_def Let_def cancelScheduled_none_left completionUrl_def
      split: option.splits)

theorem scheduleTestCompletion_at_most_one_witness:
  "length (filter (\<lambda>m. msg_url m = completionUrl ''https://app.dub.co'' sample_link)
        (scheduleTestCompletion ''https://app.dub.co'' True 1000 1000 sample_link
           (scheduleTestCompletion ''https://app.dub.co'' True 0 0 sample_link []))) = 1"
proof -
  have "sample_link\<lparr>testVariants := testVariants sample_link,
          testCompletedAt := testCompletedAt sample_link\<rparr> = sample_link"
    by simp
  with scheduleTestCompletion_at_most_one [where app = "''https://app.dub.co''"
      and link = sample_link and tv = "testVariants sample_link"
      and tc = "testCompletedAt sample_link" and nowc = 1000 and nowd = 1000
      and oka = True and nowa = 0 and nowb = 0 and q = "[]"]
  have le: "length (filter (\<lambda>m. msg_url m = completionUrl ''https://app.dub.co'' sample_link)
        (scheduleTestCompletion ''https://app.dub.co'' True 1000 1000 sample_link
           (scheduleTestCompletion ''https://app.dub.co'' True 0 0 sample_link []))) \<le> 1"
    by simp
  have ge: "length (filter (\<lambda>m. msg_url m = completionUrl ''https://app.dub.co'' sample_link)
        (scheduleTestCompletion ''https://app.dub.co'' True 1000 1000 sample_link
           (scheduleTestCompletion ''https://app.dub.co'' True 0 0 sample_link []))) \<ge> 1"
    by (simp add: scheduleTestCompletion_def cancelScheduled_def sample_link_def Let_def)
  from le ge show ?thesis by simp
qed


section \<open>Properties of the streaming parse\<close>

text \<open>
  The loop from any state in which the parse is not aborted, field by field. With
  \<open>k\<close> the row counter on entry, \<open>c - k\<close> rows are still to be skipped and
  \<open>MAX_ROWS_PER_EXECUTION - (k - c)\<close> rows may still be mapped.
\<close>

lemma Papa_rows_mappedLinks:
  "\<not> aborted st \<Longrightarrow>
   mappedLinks (Papa_rows env payload c rows st) =
     mappedLinks st @ map (\<lambda>row. mapCsvRowToLink env row (mapping payload))
        (take (MAX_ROWS_PER_EXECUTION - (currentRow st - c)) (drop (c - currentRow st) rows))"
proof (induction rows arbitrary: st)
  case Nil
  then show ?case by simp
next
  case (Cons row rows)
  show ?case
  proof (cases "currentRow st < c")
    case True
    then have d: "c - currentRow st = Suc (c - Suc (currentRow st))" by simp
    from True Cons show ?thesis
      by (simp add: step_def parser_abort_def complete_def Let_def d)
  next
    case False
    show ?thesis
    proof (cases "int (currentRow st) - int c \<ge> int MAX_ROWS_PER_EXECUTION")
      case True
      with False have "MAX_ROWS_PER_EXECUTION - (currentRow st - c) = 0" by simp
      with True False Cons show ?thesis by (simp add: step_def parser_abort_def complete_def Let_def)
    next
      case b: False
      with False have e: "MAX_ROWS_PER_EXECUTION - (currentRow st - c)
          = Suc (MAX_ROWS_PER_EXECUTION - (Suc (currentRow st) - c))" by linarith
      from False have z: "c - currentRow st = 0" "c - Suc (currentRow st) = 0" by simp_all
      from b False Cons show ?thesis
        by (simp add: step_def parser_abort_def complete_def Let_def e z)
    qed
  qed
qed

lemma Papa_rows_currentRow:
  "\<not> aborted st \<Longrightarrow>
   currentRow (Papa_rows env payload c rows st) =
     currentRow st + min (length rows)
        ((c - currentRow st) + (MAX_ROWS_PER_EXECUTION - (currentRow st - c)))"
proof (induction rows arbitrary: st)
  case Nil
  then show ?case by simp
next
  case (Cons row rows)
  show ?case
  proof (cases "currentRow st < c")
    case True
    with Cons show ?thesis
      by (simp add: step_def parser_abort_def complete_def Let_def)
  next
    case False
    show ?thesis
    proof (cases "int (currentRow st) - int c \<ge> int MAX_ROWS_PER_EXECUTION")
      case True
      with False Cons show ?thesis by (simp add: step_def parser_abort_def complete_def Let_def)
    next
      case b: False
      from b False Cons show ?thesis
        by (simp add: step_def parser_abort_def complete_def Let_def)
    qed
  qed
qed

lemma Papa_rows_aborted:
  "\<not> aborted st \<Longrightarrow>
   aborted (Papa_rows env payload c rows st) =
     (length rows > (c - currentRow st) + (MAX_ROWS_PER_EXECUTION - (currentRow st - c)))"
proof (induction rows arbitrary: st)
  case Nil
  then show ?case by simp
next
  case (Cons row rows)
  show ?case
  proof (cases "currentRow st < c")
    case True
    with Cons show ?thesis
      by (simp add: step_def parser_abort_def complete_def Let_def) linarith
  next
    case False
    show ?thesis
    proof (cases "int (currentRow st) - int c \<ge> int MAX_ROWS_PER_EXECUTION")
      case True
      with False Cons show ?thesis by (simp add: step_def parser_abort_def complete_def Let_def)
    next
      case b: False
      from b False Cons show ?thesis
        by (simp add: step_def parser_abort_def complete_def Let_def) linarith
    qed
  qed
qed

lemma Papa_rows_rowsParsed:
  "\<not> aborted st \<Longrightarrow>
   rowsParsed (Papa_rows env payload c rows st) =
     rowsParsed st + min (length rows)
        (Suc ((c - currentRow st) + (MAX_ROWS_PER_EXECUTION - (currentRow st - c))))"
proof (induction rows arbitrary: st)
  case Nil
  then show ?case by simp
next
  case (Cons row rows)
  show ?case
  proof (cases "currentRow st < c")
    case True
    with Cons show ?thesis
      by (simp add: step_def parser_abort_def complete_def Let_def) 
  next
    case False
    show ?thesis
    proof (cases "int (currentRow st) - int c \<ge> int MAX_ROWS_PER_EXECUTION")
      case True
      with False Cons show ?thesis by (simp add: step_def parser_abort_def complete_def Let_def)
    next
      case b: False
      from b False Cons show ?thesis
        by (simp add: step_def parser_abort_def complete_def Let_def) 
    qed
  qed
qed

lemma Papa_rows_sets:
  "\<not> aborted st \<Longrightarrow>
   r_sets (ps_redis (Papa_rows env payload c rows st)) =
     r_sets (ps_redis st) @
       map (\<lambda>i. (cursorKey payload, max (currentRow st) c + 1 + i))
         [0 ..< min (MAX_ROWS_PER_EXECUTION - (currentRow st - c)) (length rows - (c - currentRow st))]"
proof (induction rows arbitrary: st)
  case Nil
  then show ?case by simp
next
  case (Cons row rows)
  show ?case
  proof (cases "currentRow st < c")
    case True
    then have m: "max (Suc (currentRow st)) c = max (currentRow st) c" by simp
    from True have "Suc (length rows) - (c - currentRow st) = length rows - (c - Suc (currentRow st))"
      by simp
    with True Cons m show ?thesis
      by (simp add: step_def parser_abort_def complete_def Let_def)
  next
    case False
    show ?thesis
    proof (cases "int (currentRow st) - int c \<ge> int MAX_ROWS_PER_EXECUTION")
      case True
      with False have "MAX_ROWS_PER_EXECUTION - (currentRow st - c) = 0" by simp
      with True False Cons show ?thesis by (simp add: step_def parser_abort_def complete_def Let_def)
    next
      case b: False
      with False have e: "MAX_ROWS_PER_EXECUTION - (currentRow st - c)
          = Suc (MAX_ROWS_PER_EXECUTION - (Suc (currentRow st) - c))" by linarith
      from False have z: "c - currentRow st = 0" "c - Suc (currentRow st) = 0"
        "max (currentRow st) c = currentRow st" "max (Suc (currentRow st)) c = Suc (currentRow st)"
        by simp_all
      have up: "[0..<Suc n] = 0 # map Suc [0..<n]" for n
        by (simp add: upt_conv_Cons map_Suc_upt del: upt_Suc)
      from b False Cons show ?thesis
        by (simp add: step_def parser_abort_def complete_def Let_def e z redis_set_def up comp_def del: upt_Suc)
    qed
  qed
qed

lemma Papa_rows_num_other:
  "k \<noteq> cursorKey payload \<Longrightarrow>
   r_num (ps_redis (Papa_rows env payload c rows st)) k = r_num (ps_redis st) k"
  by (induction rows arbitrary: st) (simp_all add: step_def parser_abort_def complete_def Let_def redis_set_def)

lemma Papa_rows_num:
  "\<not> aborted st \<Longrightarrow>
   r_num (ps_redis (Papa_rows env payload c rows st)) (cursorKey payload) =
     (if c - currentRow st < length rows \<and> currentRow st - c < MAX_ROWS_PER_EXECUTION
      then Some (max (currentRow st) c
                + min (MAX_ROWS_PER_EXECUTION - (currentRow st - c)) (length rows - (c - currentRow st)))
      else r_num (ps_redis st) (cursorKey payload))"
proof (induction rows arbitrary: st)
  case Nil
  then show ?case by simp
next
  case (Cons row rows)
  show ?case
  proof (cases "currentRow st < c")
    case True
    let ?st = "st\<lparr>rowsParsed := rowsParsed st + 1, currentRow := currentRow st + 1\<rparr>"
    have u: "Papa_rows env payload c (row # rows) st = Papa_rows env payload c rows ?st"
      using True Cons.prems by (simp add: step_def parser_abort_def complete_def Let_def)
    have na: "\<not> aborted ?st" using Cons.prems by simp
    show ?thesis
      unfolding u using Cons.IH [OF na] True
      by (auto simp: max_def min_def)
  next
    case False
    show ?thesis
    proof (cases "int (currentRow st) - int c \<ge> int MAX_ROWS_PER_EXECUTION")
      case True
      with False have "\<not> currentRow st - c < MAX_ROWS_PER_EXECUTION" by linarith
      with True False Cons show ?thesis by (simp add: step_def parser_abort_def complete_def Let_def)
    next
      case b: False
      let ?st = "st\<lparr>rowsParsed := rowsParsed st + 1,
            mappedLinks := mappedLinks st @ [mapCsvRowToLink env row (mapping payload)],
            currentRow := currentRow st + 1,
            ps_redis := redis_set (ps_redis st) (cursorKey payload) (currentRow st + 1)\<rparr>"
      have u: "Papa_rows env payload c (row # rows) st = Papa_rows env payload c rows ?st"
        using False b Cons.prems by (simp add: step_def parser_abort_def complete_def Let_def)
      have na: "\<not> aborted ?st" using Cons.prems by simp
      from False b have d: "c - currentRow st = 0" "c - Suc (currentRow st) = 0"
        "max (currentRow st) c = currentRow st" "max (Suc (currentRow st)) c = Suc (currentRow st)"
        "Suc (currentRow st) - c = Suc (currentRow st - c)"
        "currentRow st - c < MAX_ROWS_PER_EXECUTION"
        by linarith+
      show ?thesis
        unfolding u using Cons.IH [OF na] d(6)
        by (auto simp: d(1-5) min_def redis_set_def) linarith+
    qed
  qed
qed

lemma Papa_rows_lists:
  "r_list (ps_redis (Papa_rows env payload c rows st)) = r_list (ps_redis st)
   \<and> r_set (ps_redis (Papa_rows env payload c rows st)) = r_set (ps_redis st)"
  by (induction rows arbitrary: st) (simp_all add: step_def parser_abort_def complete_def Let_def redis_set_def)

text \<open>What the \<^verbatim>\<open>complete\<close> callback has left when the loop is over: the verdict on the
  row that made \<^verbatim>\<open>step\<close> abort, if there was one.\<close>

lemma Papa_rows_isComplete:
  assumes "\<not> aborted st" and "currentRow st \<le> c + MAX_ROWS_PER_EXECUTION"
  shows "isComplete (Papa_rows env p c rows st) =
     (if c + MAX_ROWS_PER_EXECUTION - currentRow st < length rows
      then (case map_of (rows ! (c + MAX_ROWS_PER_EXECUTION - currentRow st)) ''length'' of
              None \<Rightarrow> False
            | Some s \<Rightarrow> number_ge_string env (c + MAX_ROWS_PER_EXECUTION) s)
      else isComplete st)"
  using assms
proof (induction rows arbitrary: st)
  case Nil
  then show ?case by simp
next
  case (Cons row rows)
  let ?b = "c + MAX_ROWS_PER_EXECUTION - currentRow st"
  show ?case
  proof (cases "currentRow st < c")
    case True
    let ?st = "st\<lparr>rowsParsed := rowsParsed st + 1, currentRow := currentRow st + 1\<rparr>"
    have u: "Papa_rows env p c (row # rows) st = Papa_rows env p c rows ?st"
      using True Cons.prems by (simp add: step_def Let_def)
    have na: "\<not> aborted ?st" "currentRow ?st \<le> c + MAX_ROWS_PER_EXECUTION"
      using Cons.prems True by simp_all
    from True have b: "?b = Suc (c + MAX_ROWS_PER_EXECUTION - Suc (currentRow st))" by simp
    show ?thesis
      unfolding u using Cons.IH [OF na] by (simp add: b)
  next
    case False
    show ?thesis
    proof (cases "int (currentRow st) - int c \<ge> int MAX_ROWS_PER_EXECUTION")
      case True
      with False Cons.prems have k: "currentRow st = c + MAX_ROWS_PER_EXECUTION" by linarith
      have "Papa_rows env p c (row # rows) st
          = parser_abort env row (st\<lparr>rowsParsed := rowsParsed st + 1\<rparr>)"
        using True False by (simp add: step_def Let_def parser_abort_def complete_def)
      then show ?thesis
        by (simp add: k parser_abort_def complete_def row_length_def split: option.splits)
    next
      case b: False
      let ?st = "st\<lparr>rowsParsed := rowsParsed st + 1,
            mappedLinks := mappedLinks st @ [mapCsvRowToLink env row (mapping p)],
            currentRow := currentRow st + 1,
            ps_redis := redis_set (ps_redis st) (cursorKey p) (currentRow st + 1)\<rparr>"
      have u: "Papa_rows env p c (row # rows) st = Papa_rows env p c rows ?st"
        using False b Cons.prems by (simp add: step_def Let_def)
      from False b have lt: "currentRow st < c + MAX_ROWS_PER_EXECUTION" by linarith
      have na: "\<not> aborted ?st" "currentRow ?st \<le> c + MAX_ROWS_PER_EXECUTION"
        using Cons.prems lt by simp_all
      from lt have e: "?b = Suc (c + MAX_ROWS_PER_EXECUTION - Suc (currentRow st))" by simp
      show ?thesis
        unfolding u using Cons.IH [OF na] by (simp add: e)
    qed
  qed
qed

text \<open>
  C3. Whatever the cursor \<open>c\<close> and the rows of the stream, one parse maps exactly the
  rows at the positions \<open>c\<close> to \<open>c + 24\<close> that the stream has, in order: at most 25
  rows, none with an index below \<open>c\<close>, none after the 25th accepted one. The parser
  reads the rows before the cursor all the same (it reads every row up to the one that makes
  \<^verbatim>\<open>step\<close> abort, \<open>c + 26\<close> rows at most), and the row counter ends at the smaller of
  the stream's length and \<open>c + 25\<close>.
\<close>

theorem Papa_parse_bounded:
  "mappedLinks (Papa_parse env payload c rows r)
     = map (\<lambda>row. mapCsvRowToLink env row (mapping payload)) (take MAX_ROWS_PER_EXECUTION (drop c rows))
   \<and> length (mappedLinks (Papa_parse env payload c rows r)) \<le> 25
   \<and> rowsParsed (Papa_parse env payload c rows r) = min (length rows) (c + 26)
   \<and> currentRow (Papa_parse env payload c rows r) = min (length rows) (c + 25)"
  by (simp add: Papa_parse_def complete_def Let_def parse_init_def Papa_rows_mappedLinks Papa_rows_rowsParsed
      Papa_rows_currentRow) (simp add: MAX_ROWS_PER_EXECUTION_def)

theorem Papa_parse_bounded_witness:
  "length (mappedLinks (Papa_parse sample_mapper_env sample_payload 2 (sample_rows 30) empty_redis)) = 25
   \<and> rowsParsed (Papa_parse sample_mapper_env sample_payload 2 (sample_rows 30) empty_redis) = 28
   \<and> currentRow (Papa_parse sample_mapper_env sample_payload 2 (sample_rows 30) empty_redis) = 27"
  using Papa_parse_bounded [of sample_mapper_env sample_payload 2 "sample_rows 30" empty_redis]
  by (simp add: sample_rows_def MAX_ROWS_PER_EXECUTION_def)


section \<open>What the materializer and the finalizer leave untouched\<close>

lemma keys_distinct:
  "cursorKey p \<noteq> createdKey p" "cursorKey p \<noteq> failedKey p" "cursorKey p \<noteq> domainsKey p"
  "createdKey p \<noteq> failedKey p" "createdKey p \<noteq> domainsKey p" "failedKey p \<noteq> domainsKey p"
  by (simp_all add: cursorKey_def createdKey_def failedKey_def domainsKey_def)

lemma processTags_frame:
  "redis (processTags env p succ w) = redis w \<and> queue (processTags env p succ w) = queue w
   \<and> files (processTags env p succ w) = files w \<and> emails (processTags env p succ w) = emails w
   \<and> linkTable (processTags env p succ w) = linkTable w
   \<and> projectTable (processTags env p succ w) = projectTable w"
  by (simp add: processTags_def Let_def)

lemma processDomains_frame:
  "r_sets (redis (processDomains env p succ w)) = r_sets (redis w)
   \<and> r_num (redis (processDomains env p succ w)) = r_num (redis w)
   \<and> r_list (redis (processDomains env p succ w)) = r_list (redis w)
   \<and> queue (processDomains env p succ w) = queue w
   \<and> files (processDomains env p succ w) = files w
   \<and> emails (processDomains env p succ w) = emails w
   \<and> projectTable (processDomains env p succ w) = projectTable w"
  by (simp add: processDomains_def domainsNotInWorkspace_def Let_def redis_sadd_def)

lemma world_at_dedup_frame:
  "r_sets (redis (world_at_dedup env ml p w)) = r_sets (redis w)
   \<and> r_num (redis (world_at_dedup env ml p w)) = r_num (redis w)
   \<and> r_list (redis (world_at_dedup env ml p w)) = r_list (redis w)
   \<and> queue (world_at_dedup env ml p w) = queue w
   \<and> files (world_at_dedup env ml p w) = files w
   \<and> emails (world_at_dedup env ml p w) = emails w
   \<and> projectTable (world_at_dedup env ml p w) = projectTable w"
  by (simp add: world_at_dedup_def processDomains_frame processTags_frame)

lemma materialize_frame:
  "r_sets (redis (materialize env p w plan bodies)) = r_sets (redis w)
   \<and> r_num (redis (materialize env p w plan bodies)) (cursorKey p) = r_num (redis w) (cursorKey p)
   \<and> queue (materialize env p w plan bodies) = queue w
   \<and> files (materialize env p w plan bodies) = files w
   \<and> emails (materialize env p w plan bodies) = emails w
   \<and> projectTable (materialize env p w plan bodies) = projectTable w"
  by (simp add: materialize_def Let_def redis_incrby_def redis_rpush_def keys_distinct)

lemma processMappedLinks_frame:
  "r_sets (redis (snd (processMappedLinks env ml p w))) = r_sets (redis w)
   \<and> r_num (redis (snd (processMappedLinks env ml p w))) (cursorKey p) = r_num (redis w) (cursorKey p)
   \<and> queue (snd (processMappedLinks env ml p w)) = queue w
   \<and> files (snd (processMappedLinks env ml p w)) = files w
   \<and> emails (snd (processMappedLinks env ml p w)) = emails w
   \<and> projectTable (snd (processMappedLinks env ml p w)) = projectTable w"
  by (simp add: processMappedLinks_def Let_def world_at_dedup_frame materialize_frame
      split: option.splits sum.splits)

lemma finalize_frame:
  "r_sets (redis (finalize env p w)) = r_sets (redis w) \<and> queue (finalize env p w) = queue w
   \<and> length (emails (finalize env p w)) = Suc (length (emails w))"
  by (simp add: finalize_def Let_def redis_del_def)


section \<open>Properties of the link materializer\<close>












































section \<open>Properties of one invocation and of a job\<close>

lemma Papa_parse_fields:
  "mappedLinks (Papa_parse env p c rows r)
     = map (\<lambda>row. mapCsvRowToLink env row (mapping p)) (take MAX_ROWS_PER_EXECUTION (drop c rows))"
  "currentRow (Papa_parse env p c rows r) = min (length rows) (c + MAX_ROWS_PER_EXECUTION)"
  "r_list (ps_redis (Papa_parse env p c rows r)) = r_list r"
  "r_set (ps_redis (Papa_parse env p c rows r)) = r_set r"
  by (auto simp: Papa_parse_def complete_def Let_def parse_init_def Papa_rows_mappedLinks
      Papa_rows_currentRow Papa_rows_lists)

text \<open>
  The file is found complete when the stream has ended within the budget. When rows remain,
  the verdict is that of the comparison of \<open>c + 25\<close> with the \<^verbatim>\<open>length\<close> cell of the
  row at which \<^verbatim>\<open>step\<close> aborts: not complete when the row has no such column.
\<close>

lemma Papa_parse_isComplete:
  "isComplete (Papa_parse env p c rows r) =
     (if c + MAX_ROWS_PER_EXECUTION < length rows
      then (case map_of (rows ! (c + MAX_ROWS_PER_EXECUTION)) ''length'' of
              None \<Rightarrow> False
            | Some s \<Rightarrow> number_ge_string env (c + MAX_ROWS_PER_EXECUTION) s)
      else True)"
proof -
  let ?st = "Papa_rows env p c rows (parse_init r)"
  have i: "\<not> aborted (parse_init r)" "currentRow (parse_init r) \<le> c + MAX_ROWS_PER_EXECUTION"
    by (simp_all add: parse_init_def)
  have a: "aborted ?st = (c + MAX_ROWS_PER_EXECUTION < length rows)"
    using Papa_rows_aborted [OF i(1), of env p c rows] by (simp add: parse_init_def)
  have c: "isComplete ?st =
     (if c + MAX_ROWS_PER_EXECUTION < length rows
      then (case map_of (rows ! (c + MAX_ROWS_PER_EXECUTION)) ''length'' of
              None \<Rightarrow> False
            | Some s \<Rightarrow> number_ge_string env (c + MAX_ROWS_PER_EXECUTION) s)
      else isComplete (parse_init r))"
    using Papa_rows_isComplete [OF i, of env p rows] by (simp add: parse_init_def)
  show ?thesis
    by (simp add: Papa_parse_def Let_def a c complete_def)
qed

lemma Papa_parse_persisted:
  "persisted (ps_redis (Papa_parse env p c rows r)) (cursorKey p)
     = persisted r (cursorKey p)
       @ map (\<lambda>i. c + 1 + i) [0 ..< min MAX_ROWS_PER_EXECUTION (length rows - c)]"
  by (simp add: Papa_parse_def complete_def Let_def parse_init_def Papa_rows_sets persisted_def filter_map
      comp_def)

lemma Papa_parse_num:
  "r_num (ps_redis (Papa_parse env p c rows r)) (cursorKey p)
     = (if c < length rows then Some (c + min MAX_ROWS_PER_EXECUTION (length rows - c))
        else r_num r (cursorKey p))"
  "k \<noteq> cursorKey p \<Longrightarrow> r_num (ps_redis (Papa_parse env p c rows r)) k = r_num r k"
  by (simp_all add: Papa_parse_def complete_def Let_def parse_init_def Papa_rows_num Papa_rows_num_other
      MAX_ROWS_PER_EXECUTION_def)

lemma Papa_parse_cursor:
  "redis_get_int (ps_redis (Papa_parse env p (redis_get_int r (cursorKey p)) rows r)) (cursorKey p)
     = redis_get_int r (cursorKey p)
       + min MAX_ROWS_PER_EXECUTION (length rows - redis_get_int r (cursorKey p))"
  by (simp add: redis_get_int_def Papa_parse_num)

lemma POST_cursor:
  "\<exists>m. persisted (redis (snd (POST env p w))) (cursorKey p)
          = persisted (redis w) (cursorKey p)
            @ map (\<lambda>i. redis_get_int (redis w) (cursorKey p) + 1 + i) [0 ..< m]
       \<and> (emails (snd (POST env p w)) = emails w \<longrightarrow>
            redis_get_int (redis (snd (POST env p w))) (cursorKey p)
              = redis_get_int (redis w) (cursorKey p) + m)"
proof (cases "payload_id p = [] \<or> payload_url p = [] \<or> files w (payload_url p) = None")
  case True
  then have "snd (POST env p w) = w" by (auto simp: POST_def Let_def)
  then show ?thesis by (intro exI [of _ 0]) simp
next
  case False
  then obtain rows where rows: "files w (payload_url p) = Some rows"
    and ne: "payload_id p \<noteq> []" "payload_url p \<noteq> []" by auto
  let ?c = "redis_get_int (redis w) (cursorKey p)"
  let ?st = "Papa_parse (mapper env) p ?c rows (redis w)"
  let ?w1 = "w\<lparr>redis := ps_redis ?st\<rparr>"
  let ?pm = "processMappedLinks env (mappedLinks ?st) p ?w1"
  let ?m = "min MAX_ROWS_PER_EXECUTION (length rows - ?c)"
  have per: "persisted (redis (snd ?pm)) (cursorKey p)
      = persisted (redis w) (cursorKey p) @ map (\<lambda>i. ?c + 1 + i) [0 ..< ?m]"
    using processMappedLinks_frame [of env "mappedLinks ?st" p ?w1]
      Papa_parse_persisted [of "mapper env" p ?c rows "redis w"]
    by (simp add: persisted_def)
  have cur: "redis_get_int (redis (snd ?pm)) (cursorKey p) = ?c + ?m"
    using processMappedLinks_frame [of env "mappedLinks ?st" p ?w1]
      Papa_parse_cursor [of "mapper env" p "redis w" rows]
    by (simp add: redis_get_int_def)
  have q: "emails (snd ?pm) = emails w"
    using processMappedLinks_frame [of env "mappedLinks ?st" p ?w1] by simp
  obtain e w2 where pm: "?pm = (e, w2)" by (cases ?pm)
  show ?thesis
  proof (cases e)
    case (Some msg)
    with pm rows ne have "snd (POST env p w) = w2" by (simp add: POST_def Let_def)
    with per cur pm show ?thesis by (intro exI [of _ ?m]) simp
  next
    case None
    show ?thesis
    proof (cases "int (currentRow ?st) - int ?c \<ge> int MAX_ROWS_PER_EXECUTION \<and> \<not> isComplete ?st")
      case True
      with None pm rows ne
      have "snd (POST env p w) = w2\<lparr>queue := queue w2 @ [continuation env p]\<rparr>"
        by (simp add: POST_def Let_def)
      with per cur pm show ?thesis by (intro exI [of _ ?m]) simp
    next
      case False
      with None pm rows ne
      have f: "snd (POST env p w) = finalize env p w2"
        by (auto simp: POST_def Let_def)
      have "length (emails (finalize env p w2)) \<noteq> length (emails w)"
        using q pm by (simp add: finalize_frame)
      then have "emails (finalize env p w2) \<noteq> emails w" by auto
      with per pm f show ?thesis
        by (intro exI [of _ ?m]) (simp add: finalize_frame persisted_def)
    qed
  qed
qed

lemma consecutive_append:
  "map (\<lambda>i. (c::nat) + 1 + i) [0 ..< m] @ map (\<lambda>i. (c + m) + 1 + i) [0 ..< k]
     = map (\<lambda>i. c + 1 + i) [0 ..< m + k]"
  by (induction k) (simp_all add: ac_simps)

lemma sorted_consecutive: "sorted_wrt (<) (map (\<lambda>i. (c::nat) + 1 + i) [0 ..< k])"
  by (induction k) (auto simp: sorted_wrt_append)

lemma run_job_cursor:
  "\<exists>k. persisted (redis (run_job n env p w)) (cursorKey p)
          = persisted (redis w) (cursorKey p)
            @ map (\<lambda>i. redis_get_int (redis w) (cursorKey p) + 1 + i) [0 ..< k]"
proof (induction n arbitrary: w)
  case 0
  show ?case by (intro exI [of _ 0]) simp
next
  case (Suc n)
  let ?w = "snd (POST env p w)"
  let ?c = "redis_get_int (redis w) (cursorKey p)"
  obtain m where per: "persisted (redis ?w) (cursorKey p)
          = persisted (redis w) (cursorKey p) @ map (\<lambda>i. ?c + 1 + i) [0 ..< m]"
    and cur: "emails ?w = emails w \<longrightarrow> redis_get_int (redis ?w) (cursorKey p) = ?c + m"
    using POST_cursor [of env p w] by blast
  show ?case
  proof (cases "emails ?w = emails w")
    case False
    then have "run_job (Suc n) env p w = ?w" by (simp add: Let_def)
    with per show ?thesis by (intro exI [of _ m]) simp
  next
    case True
    then have r: "run_job (Suc n) env p w = run_job n env p ?w" by (simp add: Let_def)
    from True cur have c': "redis_get_int (redis ?w) (cursorKey p) = ?c + m" by simp
    from Suc.IH [of ?w] obtain k where
      "persisted (redis (run_job n env p ?w)) (cursorKey p)
          = persisted (redis ?w) (cursorKey p)
            @ map (\<lambda>i. redis_get_int (redis ?w) (cursorKey p) + 1 + i) [0 ..< k]"
      by blast
    with per c' have "persisted (redis (run_job n env p ?w)) (cursorKey p)
          = persisted (redis w) (cursorKey p)
            @ (map (\<lambda>i. ?c + 1 + i) [0 ..< m] @ map (\<lambda>i. (?c + m) + 1 + i) [0 ..< k])"
      by simp
    then have "persisted (redis (run_job n env p ?w)) (cursorKey p)
          = persisted (redis w) (cursorKey p) @ map (\<lambda>i. ?c + 1 + i) [0 ..< m + k]"
      by (simp only: consecutive_append)
    with r show ?thesis by (intro exI [of _ "m + k"]) simp
  qed
qed

text \<open>
  C5. (1) A call of \<^verbatim>\<open>step\<close> that maps its row leaves the row counter one higher
  and that new value stored under the cursor key, as the latest value the key was set to;
  the loop hands the next row to \<^verbatim>\<open>step\<close> in the state this call has left, so the
  value is stored before the next row is consumed. (2) In one invocation, which reads the
  cursor \<open>c\<close> from the store, the values the cursor key is set to are \<open>c + 1\<close>,
  \<open>c + 2\<close>, ... one for each mapped row. (3) Over a job's life, from any world and for
  any number of invocations, one after the other, the values the cursor key is set to are
  the consecutive numbers from the stored cursor plus one on: a strictly increasing
  sequence.
\<close>

theorem cursor_persisted_increasing:
  "(\<not> aborted st \<and> \<not> currentRow st < c
      \<and> \<not> int MAX_ROWS_PER_EXECUTION \<le> int (currentRow st) - int c \<longrightarrow>
      currentRow (step menv p c row st) = currentRow st + 1
      \<and> r_num (ps_redis (step menv p c row st)) (cursorKey p) = Some (currentRow st + 1)
      \<and> persisted (ps_redis (step menv p c row st)) (cursorKey p)
          = persisted (ps_redis st) (cursorKey p) @ [currentRow st + 1]
      \<and> Papa_rows menv p c (row # rows) st
          = Papa_rows menv p c rows (step menv p c row (st\<lparr>rowsParsed := rowsParsed st + 1\<rparr>)))
   \<and> persisted (ps_redis (Papa_parse menv p (redis_get_int r (cursorKey p)) rows r)) (cursorKey p)
       = persisted r (cursorKey p)
         @ map (\<lambda>i. redis_get_int r (cursorKey p) + 1 + i)
             [0 ..< length (mappedLinks (Papa_parse menv p (redis_get_int r (cursorKey p)) rows r))]
   \<and> (\<exists>k. persisted (redis (run_job n env p w)) (cursorKey p)
            = persisted (redis w) (cursorKey p)
              @ map (\<lambda>i. redis_get_int (redis w) (cursorKey p) + 1 + i) [0 ..< k]
          \<and> sorted_wrt (<) (map (\<lambda>i. redis_get_int (redis w) (cursorKey p) + 1 + i) [0 ..< k]))"
proof (intro conjI impI)
  assume h: "\<not> aborted st \<and> \<not> currentRow st < c
      \<and> \<not> int MAX_ROWS_PER_EXECUTION \<le> int (currentRow st) - int c"
  then show "currentRow (step menv p c row st) = currentRow st + 1"
    by (simp add: step_def parser_abort_def complete_def)
  from h show "r_num (ps_redis (step menv p c row st)) (cursorKey p) = Some (currentRow st + 1)"
    by (simp add: step_def parser_abort_def complete_def redis_set_def)
  from h show "persisted (ps_redis (step menv p c row st)) (cursorKey p)
          = persisted (ps_redis st) (cursorKey p) @ [currentRow st + 1]"
    by (simp add: step_def parser_abort_def complete_def redis_set_def persisted_def)
  from h show "Papa_rows menv p c (row # rows) st
          = Papa_rows menv p c rows (step menv p c row (st\<lparr>rowsParsed := rowsParsed st + 1\<rparr>))"
    by (simp add: step_def parser_abort_def complete_def Let_def)
next
  show "persisted (ps_redis (Papa_parse menv p (redis_get_int r (cursorKey p)) rows r)) (cursorKey p)
       = persisted r (cursorKey p)
         @ map (\<lambda>i. redis_get_int r (cursorKey p) + 1 + i)
             [0 ..< length (mappedLinks (Papa_parse menv p (redis_get_int r (cursorKey p)) rows r))]"
    by (simp add: Papa_parse_persisted Papa_parse_fields min.commute)
next
  from run_job_cursor [of n env p w] obtain k where
    k: "persisted (redis (run_job n env p w)) (cursorKey p)
            = persisted (redis w) (cursorKey p)
              @ map (\<lambda>i. redis_get_int (redis w) (cursorKey p) + 1 + i) [0 ..< k]"
    by blast
  show "\<exists>k. persisted (redis (run_job n env p w)) (cursorKey p)
            = persisted (redis w) (cursorKey p)
              @ map (\<lambda>i. redis_get_int (redis w) (cursorKey p) + 1 + i) [0 ..< k]
          \<and> sorted_wrt (<) (map (\<lambda>i. redis_get_int (redis w) (cursorKey p) + 1 + i) [0 ..< k])"
    using k sorted_consecutive [of "redis_get_int (redis w) (cursorKey p)" k]
    by (intro exI [of _ k] conjI)
qed

theorem cursor_persisted_increasing_witness:
  "r_num (ps_redis (step sample_mapper_env sample_payload 0 (sample_row 0) (parse_init empty_redis)))
       (cursorKey sample_payload) = Some 1
   \<and> persisted (ps_redis (Papa_parse sample_mapper_env sample_payload 0 (sample_rows 3) empty_redis))
       (cursorKey sample_payload) = [1, 2, 3]"
proof -
  have h: "\<not> aborted (parse_init empty_redis) \<and> \<not> currentRow (parse_init empty_redis) < 0
      \<and> \<not> int MAX_ROWS_PER_EXECUTION \<le> int (currentRow (parse_init empty_redis)) - int 0"
    by (simp add: parse_init_def MAX_ROWS_PER_EXECUTION_def)
  have z: "redis_get_int empty_redis (cursorKey sample_payload) = 0"
    by (simp add: redis_get_int_def empty_redis_def)
  have l: "length (mappedLinks (Papa_parse sample_mapper_env sample_payload 0 (sample_rows 3) empty_redis)) = 3"
    by (simp add: Papa_parse_fields sample_rows_def MAX_ROWS_PER_EXECUTION_def)
  have e: "persisted empty_redis (cursorKey sample_payload) = []"
    by (simp add: persisted_def empty_redis_def)
  have u: "[0 ..< 3] = [0, 1, 2::nat]"
    by code_simp
  from cursor_persisted_increasing [where st = "parse_init empty_redis" and c = 0
      and menv = sample_mapper_env and p = sample_payload and row = "sample_row 0"
      and rows = "sample_rows 3" and r = empty_redis] h z l e u
  show ?thesis by (simp add: parse_init_def)
qed


section \<open>Where failures go\<close>













section \<open>Rescheduling and finalizing\<close>

text \<open>An invocation that returns normally publishes a continuation exactly when rows
  remain beyond the cursor plus the budget and \<^verbatim>\<open>complete\<close> has not found the file
  complete, and finalizes otherwise.\<close>

lemma finalize_fields:
  "queue (finalize env p w) = queue w"
  "projectTable (finalize env p w) = projectTable w"
  "emails (finalize env p w)
     = emails w @ [\<lparr>e_workspaceId = workspaceId p,
                     e_count = redis_get_int (redis w) (createdKey p),
                     e_domains = redis_smembers (redis w) (domainsKey p),
                     e_errorLinks = redis_lrange_all (redis w) (failedKey p)\<rparr>]"
  by (simp_all add: finalize_def Let_def)

lemma finalize_clean:
  assumes "cleanupOk env 0" "cleanupOk env 1" "cleanupOk env 2" "cleanupOk env 3" "cleanupOk env 4"
  shows "r_num (redis (finalize env p w)) (cursorKey p) = None"
    and "r_num (redis (finalize env p w)) (createdKey p) = None"
    and "r_list (redis (finalize env p w)) (failedKey p) = None"
    and "r_set (redis (finalize env p w)) (domainsKey p) = None"
    and "files (finalize env p w) (payload_url p) = None"
  using assms by (simp_all add: finalize_def Let_def redis_del_def)

lemma POST_unfold:
  assumes "payload_id p \<noteq> []" "payload_url p \<noteq> []" "files w (payload_url p) = Some rows"
  shows "POST env p w =
     (case processMappedLinks env
             (mappedLinks (Papa_parse (mapper env) p (redis_get_int (redis w) (cursorKey p)) rows (redis w)))
             p (w\<lparr>redis := ps_redis (Papa_parse (mapper env) p (redis_get_int (redis w) (cursorKey p)) rows (redis w))\<rparr>) of
        (Some e, w2) \<Rightarrow> (ErrorResponse e, w2)
      | (None, w2) \<Rightarrow>
          (if redis_get_int (redis w) (cursorKey p) + MAX_ROWS_PER_EXECUTION < length rows
              \<and> \<not> isComplete (Papa_parse (mapper env) p (redis_get_int (redis w) (cursorKey p))
                                rows (redis w))
           then (OK, w2\<lparr>queue := queue w2 @ [continuation env p]\<rparr>)
           else (OK, finalize env p w2)))"
proof -
  let ?c = "redis_get_int (redis w) (cursorKey p)"
  let ?st = "Papa_parse (mapper env) p ?c rows (redis w)"
  have "isComplete ?st" if "\<not> ?c + MAX_ROWS_PER_EXECUTION < length rows"
    using that by (simp add: Papa_parse_isComplete)
  moreover have "int (currentRow ?st) - int ?c \<ge> int MAX_ROWS_PER_EXECUTION"
    if "?c + MAX_ROWS_PER_EXECUTION < length rows"
    using that by (simp add: Papa_parse_fields)
  ultimately have "(int (currentRow ?st) - int ?c \<ge> int MAX_ROWS_PER_EXECUTION \<and> \<not> isComplete ?st)
      = (?c + MAX_ROWS_PER_EXECUTION < length rows \<and> \<not> isComplete ?st)"
    by blast
  with assms show ?thesis
    by (auto simp: POST_def Let_def split: prod.splits option.splits)
qed

lemma POST_continue:
  assumes "payload_id p \<noteq> []" "payload_url p \<noteq> []" "files w (payload_url p) = Some rows"
    and ok: "fst (POST env p w) = OK"
    and more: "redis_get_int (redis w) (cursorKey p) + MAX_ROWS_PER_EXECUTION < length rows"
    and nc: "\<not> isComplete (Papa_parse (mapper env) p (redis_get_int (redis w) (cursorKey p))
                            rows (redis w))"
  shows "queue (snd (POST env p w)) = queue w @ [continuation env p]"
    and "emails (snd (POST env p w)) = emails w"
    and "files (snd (POST env p w)) = files w"
    and "projectTable (snd (POST env p w)) = projectTable w"
    and "redis_get_int (redis (snd (POST env p w))) (cursorKey p)
           = redis_get_int (redis w) (cursorKey p) + MAX_ROWS_PER_EXECUTION"
proof -
  let ?c = "redis_get_int (redis w) (cursorKey p)"
  let ?st = "Papa_parse (mapper env) p ?c rows (redis w)"
  let ?w1 = "w\<lparr>redis := ps_redis ?st\<rparr>"
  let ?pm = "processMappedLinks env (mappedLinks ?st) p ?w1"
  obtain e w2 where pm: "?pm = (e, w2)" by (cases ?pm)
  from ok pm more nc assms(1-3) have e: "e = None"
    by (cases e) (simp_all add: POST_unfold)
  with pm more nc assms(1-3) have s: "snd (POST env p w) = w2\<lparr>queue := queue w2 @ [continuation env p]\<rparr>"
    by (simp add: POST_unfold)
  have w2: "w2 = snd ?pm" using pm by simp
  note fr = processMappedLinks_frame [of env "mappedLinks ?st" p ?w1]
  show "queue (snd (POST env p w)) = queue w @ [continuation env p]"
    using fr by (simp add: s w2)
  show "emails (snd (POST env p w)) = emails w" using fr by (simp add: s w2)
  show "files (snd (POST env p w)) = files w" using fr by (simp add: s w2)
  show "projectTable (snd (POST env p w)) = projectTable w" using fr by (simp add: s w2)
  have "min MAX_ROWS_PER_EXECUTION (length rows - ?c) = MAX_ROWS_PER_EXECUTION"
    using more by simp
  then show "redis_get_int (redis (snd (POST env p w))) (cursorKey p) = ?c + MAX_ROWS_PER_EXECUTION"
    using fr Papa_parse_cursor [of "mapper env" p "redis w" rows]
    by (simp add: s w2 redis_get_int_def)
qed

lemma POST_finalize:
  assumes "payload_id p \<noteq> []" "payload_url p \<noteq> []" "files w (payload_url p) = Some rows"
    and ok: "fst (POST env p w) = OK"
    and last: "redis_get_int (redis w) (cursorKey p) + MAX_ROWS_PER_EXECUTION < length rows
               \<longrightarrow> isComplete (Papa_parse (mapper env) p (redis_get_int (redis w) (cursorKey p))
                                 rows (redis w))"
  shows "queue (snd (POST env p w)) = queue w"
    and "length (emails (snd (POST env p w))) = length (emails w) + 1"
    and "e_workspaceId (last (emails (snd (POST env p w)))) = workspaceId p"
    and "cleanupOk env 0 \<and> cleanupOk env 1 \<and> cleanupOk env 2 \<and> cleanupOk env 3 \<and> cleanupOk env 4 \<Longrightarrow>
         r_num (redis (snd (POST env p w))) (cursorKey p) = None
         \<and> r_num (redis (snd (POST env p w))) (createdKey p) = None
         \<and> r_list (redis (snd (POST env p w))) (failedKey p) = None
         \<and> r_set (redis (snd (POST env p w))) (domainsKey p) = None
         \<and> files (snd (POST env p w)) (payload_url p) = None"
proof -
  let ?c = "redis_get_int (redis w) (cursorKey p)"
  let ?st = "Papa_parse (mapper env) p ?c rows (redis w)"
  let ?w1 = "w\<lparr>redis := ps_redis ?st\<rparr>"
  let ?pm = "processMappedLinks env (mappedLinks ?st) p ?w1"
  obtain e w2 where pm: "?pm = (e, w2)" by (cases ?pm)
  from last have nc: "\<not> (?c + MAX_ROWS_PER_EXECUTION < length rows \<and> \<not> isComplete ?st)"
    by blast
  from ok pm assms(1-3) have e: "e = None"
    by (cases e) (auto simp: POST_unfold)
  with pm nc assms(1-3) have s: "snd (POST env p w) = finalize env p w2"
    by (auto simp: POST_unfold)
  have w2: "w2 = snd ?pm" using pm by simp
  note fr = processMappedLinks_frame [of env "mappedLinks ?st" p ?w1]
  show "queue (snd (POST env p w)) = queue w"
    using fr by (simp add: s finalize_fields w2)
  show "length (emails (snd (POST env p w))) = length (emails w) + 1"
    using fr by (simp add: s finalize_fields w2)
  show "e_workspaceId (last (emails (snd (POST env p w)))) = workspaceId p"
    by (simp add: s finalize_fields)
  show "r_num (redis (snd (POST env p w))) (cursorKey p) = None
         \<and> r_num (redis (snd (POST env p w))) (createdKey p) = None
         \<and> r_list (redis (snd (POST env p w))) (failedKey p) = None
         \<and> r_set (redis (snd (POST env p w))) (domainsKey p) = None
         \<and> files (snd (POST env p w)) (payload_url p) = None"
    if "cleanupOk env 0 \<and> cleanupOk env 1 \<and> cleanupOk env 2 \<and> cleanupOk env 3 \<and> cleanupOk env 4"
    using that by (simp add: s finalize_clean)
qed

lemma parse_all_total:
  assumes "\<And>b. \<exists>b'. createLinkBodySchema_parse env b = Inr b'"
  shows "\<exists>bs'. parse_all env bs = Inr bs'"
proof (induction bs)
  case Nil
  show ?case by simp
next
  case (Cons b bs)
  from assms obtain b' where "createLinkBodySchema_parse env b = Inr b'" by blast
  moreover from Cons obtain bs' where "parse_all env bs = Inr bs'" by blast
  ultimately show ?case by simp
qed

lemma POST_returns_OK:
  assumes "payload_id p \<noteq> []" "payload_url p \<noteq> []" "files w (payload_url p) = Some rows"
    and proj: "projectTable w (workspaceId p) = Some plan"
    and tot: "\<And>b. \<exists>b'. createLinkBodySchema_parse env b = Inr b'"
  shows "fst (POST env p w) = OK"
proof -
  let ?c = "redis_get_int (redis w) (cursorKey p)"
  let ?st = "Papa_parse (mapper env) p ?c rows (redis w)"
  let ?w1 = "w\<lparr>redis := ps_redis ?st\<rparr>"
  have "projectTable (world_at_dedup env (mappedLinks ?st) p ?w1) (workspaceId p) = Some plan"
    using proj by (simp add: world_at_dedup_frame)
  moreover obtain bs' where
    "parse_all env (map (toBody (folderId p)) (linksToCreate env (mappedLinks ?st) p ?w1)) = Inr bs'"
    using parse_all_total [OF tot] by blast
  ultimately have n: "fst (processMappedLinks env (mappedLinks ?st) p ?w1) = None"
    by (simp add: processMappedLinks_def Let_def)
  obtain e w2 where pm: "processMappedLinks env (mappedLinks ?st) p ?w1 = (e, w2)"
    by (cases "processMappedLinks env (mappedLinks ?st) p ?w1")
  with n have "e = None" by simp
  with pm show ?thesis
    using assms(1-3) by (simp add: POST_unfold)
qed

text \<open>
  The budget is 25. For a file of 60 rows none of which has a column named
  \<^verbatim>\<open>length\<close>, and a stored cursor of 0, three invocations that each return normally,
  each in the world the one before has left: the first maps exactly the rows 0 to 24,
  leaves the cursor at 25 and publishes one continuation message, sends no notification and
  keeps the file; the second maps exactly the rows 25 to 49, leaves the cursor at 50 and
  publishes one more; the third maps exactly the ten rows 50 to 59, finds the file
  complete, publishes nothing and finalizes: it sends one summary notification for the
  workspace and, its clean-up calls fulfilled, the four keys of the job and the file are
  gone.
\<close>

lemma sixty_rows_without_length_column:
  assumes "payload_id p \<noteq> []" and "payload_url p \<noteq> []"
    and "files w0 (payload_url p) = Some rows" and "length rows = 60"
    and "\<forall>row \<in> set rows. map_of row ''length'' = None"
    and "redis_get_int (redis w0) (cursorKey p) = 0"
    and "fst (POST env p w0) = OK" and "wa = snd (POST env p w0)"
    and "fst (POST env p wa) = OK" and "wb = snd (POST env p wa)"
    and "fst (POST env p wb) = OK" and "wc = snd (POST env p wb)"
    and "cleanupOk env 0 \<and> cleanupOk env 1 \<and> cleanupOk env 2 \<and> cleanupOk env 3 \<and> cleanupOk env 4"
  shows "MAX_ROWS_PER_EXECUTION = 25
    \<and> mappedLinks (Papa_parse (mapper env) p (redis_get_int (redis w0) (cursorKey p)) rows (redis w0))
        = map (\<lambda>row. mapCsvRowToLink (mapper env) row (mapping p)) (take 25 rows)
    \<and> redis_get_int (redis wa) (cursorKey p) = 25
    \<and> queue wa = queue w0 @ [continuation env p]
    \<and> emails wa = emails w0 \<and> files wa = files w0
    \<and> mappedLinks (Papa_parse (mapper env) p (redis_get_int (redis wa) (cursorKey p)) rows (redis wa))
        = map (\<lambda>row. mapCsvRowToLink (mapper env) row (mapping p)) (take 25 (drop 25 rows))
    \<and> redis_get_int (redis wb) (cursorKey p) = 50
    \<and> queue wb = queue wa @ [continuation env p]
    \<and> emails wb = emails wa \<and> files wb = files wa
    \<and> mappedLinks (Papa_parse (mapper env) p (redis_get_int (redis wb) (cursorKey p)) rows (redis wb))
        = map (\<lambda>row. mapCsvRowToLink (mapper env) row (mapping p)) (drop 50 rows)
    \<and> length (drop 50 rows) = 10
    \<and> isComplete (Papa_parse (mapper env) p (redis_get_int (redis wb) (cursorKey p)) rows (redis wb))
    \<and> queue wc = queue wb
    \<and> length (emails wc) = length (emails wb) + 1
    \<and> e_workspaceId (last (emails wc)) = workspaceId p
    \<and> r_num (redis wc) (cursorKey p) = None
    \<and> r_num (redis wc) (createdKey p) = None
    \<and> r_list (redis wc) (failedKey p) = None
    \<and> r_set (redis wc) (domainsKey p) = None
    \<and> files wc (payload_url p) = None"
proof -
  note pid = assms(1,2)
  have m: "MAX_ROWS_PER_EXECUTION = 25" by (simp add: MAX_ROWS_PER_EXECUTION_def)
  have nl: "map_of (rows ! i) ''length'' = None" if "i < 60" for i
    using that assms(4,5) by simp
  have more0: "redis_get_int (redis w0) (cursorKey p) + MAX_ROWS_PER_EXECUTION < length rows"
    using assms(4,6) m by simp
  have nc0: "\<not> isComplete (Papa_parse (mapper env) p (redis_get_int (redis w0) (cursorKey p))
                            rows (redis w0))"
    using assms(4) by (simp add: Papa_parse_isComplete assms(6) m nl)
  note a = POST_continue [OF pid assms(3) assms(7) more0 nc0, folded assms(8)]
  have ca: "redis_get_int (redis wa) (cursorKey p) = 25" using a(5) assms(6) m by simp
  have fa: "files wa (payload_url p) = Some rows" using a(3) assms(3) by simp
  have morea: "redis_get_int (redis wa) (cursorKey p) + MAX_ROWS_PER_EXECUTION < length rows"
    using ca assms(4) m by simp
  have nca: "\<not> isComplete (Papa_parse (mapper env) p (redis_get_int (redis wa) (cursorKey p))
                            rows (redis wa))"
    using assms(4) by (simp add: Papa_parse_isComplete ca m nl)
  note b = POST_continue [OF pid fa assms(9) morea nca, folded assms(10)]
  have cb: "redis_get_int (redis wb) (cursorKey p) = 50" using b(5) ca m by simp
  have fb: "files wb (payload_url p) = Some rows" using b(3) fa by simp
  have lastb: "redis_get_int (redis wb) (cursorKey p) + MAX_ROWS_PER_EXECUTION < length rows
      \<longrightarrow> isComplete (Papa_parse (mapper env) p (redis_get_int (redis wb) (cursorKey p))
                        rows (redis wb))"
    using cb assms(4) m by simp
  note c = POST_finalize [OF pid fb assms(11) lastb, folded assms(12)]
  have p0: "mappedLinks (Papa_parse (mapper env) p (redis_get_int (redis w0) (cursorKey p)) rows (redis w0))
        = map (\<lambda>row. mapCsvRowToLink (mapper env) row (mapping p)) (take 25 rows)"
    by (simp add: Papa_parse_fields assms(6) m)
  have p1: "mappedLinks (Papa_parse (mapper env) p (redis_get_int (redis wa) (cursorKey p)) rows (redis wa))
        = map (\<lambda>row. mapCsvRowToLink (mapper env) row (mapping p)) (take 25 (drop 25 rows))"
    by (simp add: Papa_parse_fields ca m)
  have p2: "mappedLinks (Papa_parse (mapper env) p (redis_get_int (redis wb) (cursorKey p)) rows (redis wb))
        = map (\<lambda>row. mapCsvRowToLink (mapper env) row (mapping p)) (drop 50 rows)"
    using assms(4) by (simp add: Papa_parse_fields cb m)
  have l: "length (drop 50 rows) = 10" using assms(4) by simp
  have ic: "isComplete (Papa_parse (mapper env) p (redis_get_int (redis wb) (cursorKey p)) rows (redis wb))"
    using assms(4) by (simp add: Papa_parse_isComplete cb m)
  from c(4) [OF assms(13)] m p0 ca a(1,2,3) p1 cb b(1,2,3) p2 l ic c(1,2,3)
  show ?thesis by (intro conjI) simp_all
qed

text \<open>The sample file of 60 rows, which has the columns \<^verbatim>\<open>link\<close> and \<^verbatim>\<open>url\<close>, is
  imported in three invocations.\<close>

lemma sample_file_three_invocations:
  "fst (POST sample_env sample_payload (sample_world 60)) = OK
   \<and> fst (POST sample_env sample_payload sample_world_a) = OK
   \<and> fst (POST sample_env sample_payload sample_world_b) = OK
   \<and> redis_get_int (redis sample_world_a) (cursorKey sample_payload) = 25
   \<and> queue sample_world_a = [continuation sample_env sample_payload]
   \<and> redis_get_int (redis sample_world_b) (cursorKey sample_payload) = 50
   \<and> queue sample_world_b
        = [continuation sample_env sample_payload, continuation sample_env sample_payload]
   \<and> queue sample_world_c = queue sample_world_b
   \<and> length (emails sample_world_c) = 1
   \<and> r_num (redis sample_world_c) (cursorKey sample_payload) = None
   \<and> files sample_world_c (payload_url sample_payload) = None"
proof -
  let ?p = sample_payload
  let ?rows = "sample_rows 60"
  have pid: "payload_id ?p \<noteq> []" "payload_url ?p \<noteq> []"
    by (simp_all add: sample_payload_def)
  have m: "MAX_ROWS_PER_EXECUTION = 25" by (simp add: MAX_ROWS_PER_EXECUTION_def)
  have f0: "files (sample_world 60) (payload_url ?p) = Some ?rows"
    by (simp add: sample_world_def)
  have len: "length ?rows = 60" by (simp add: sample_rows_def)
  have nl: "\<forall>row \<in> set ?rows. map_of row ''length'' = None"
    by (auto simp: sample_rows_def sample_row_def)
  have nli: "map_of (?rows ! i) ''length'' = None" if "i < 60" for i
    using that nl len by simp
  have c0: "redis_get_int (redis (sample_world 60)) (cursorKey ?p) = 0"
    by (simp add: sample_world_def empty_redis_def redis_get_int_def)
  have pr0: "projectTable (sample_world 60) (workspaceId ?p) = Some ''pro''"
    by (simp add: sample_world_def sample_payload_def)
  have tot: "\<exists>b'. createLinkBodySchema_parse sample_env b = Inr b'" for b
    by (simp add: sample_env_def)
  have q0: "queue (sample_world 60) = []" "emails (sample_world 60) = []"
    by (simp_all add: sample_world_def)
  have ok0: "fst (POST sample_env ?p (sample_world 60)) = OK"
    by (rule POST_returns_OK [OF pid f0 pr0 tot])
  have more0: "redis_get_int (redis (sample_world 60)) (cursorKey ?p) + MAX_ROWS_PER_EXECUTION
      < length ?rows"
    by (simp add: c0 len m)
  have nc0: "\<not> isComplete (Papa_parse (mapper sample_env) ?p
        (redis_get_int (redis (sample_world 60)) (cursorKey ?p)) ?rows (redis (sample_world 60)))"
    by (simp add: Papa_parse_isComplete c0 m len nli)
  note a = POST_continue [OF pid f0 ok0 more0 nc0, folded sample_world_a_def]
  have fa: "files sample_world_a (payload_url ?p) = Some ?rows" using a(3) f0 by simp
  have pra: "projectTable sample_world_a (workspaceId ?p) = Some ''pro''" using a(4) pr0 by simp
  have oka: "fst (POST sample_env ?p sample_world_a) = OK"
    by (rule POST_returns_OK [OF pid fa pra tot])
  have ca: "redis_get_int (redis sample_world_a) (cursorKey ?p) = 25"
    using a(5) by (simp add: c0 m)
  have morea: "redis_get_int (redis sample_world_a) (cursorKey ?p) + MAX_ROWS_PER_EXECUTION
      < length ?rows"
    by (simp add: ca len m)
  have nca: "\<not> isComplete (Papa_parse (mapper sample_env) ?p
        (redis_get_int (redis sample_world_a) (cursorKey ?p)) ?rows (redis sample_world_a))"
    by (simp add: Papa_parse_isComplete ca m len nli)
  note b = POST_continue [OF pid fa oka morea nca, folded sample_world_b_def]
  have fb: "files sample_world_b (payload_url ?p) = Some ?rows" using b(3) fa by simp
  have prb: "projectTable sample_world_b (workspaceId ?p) = Some ''pro''" using b(4) pra by simp
  have okb: "fst (POST sample_env ?p sample_world_b) = OK"
    by (rule POST_returns_OK [OF pid fb prb tot])
  have cl: "cleanupOk sample_env 0 \<and> cleanupOk sample_env 1 \<and> cleanupOk sample_env 2
      \<and> cleanupOk sample_env 3 \<and> cleanupOk sample_env 4"
    by (simp add: sample_env_def)
  from sixty_rows_without_length_column [OF pid f0 len nl c0 ok0 sample_world_a_def oka
      sample_world_b_def okb sample_world_c_def cl] ok0 oka okb q0
  show ?thesis by simp
qed

text \<open>
  C2. The scenario does not hold for every file of 60 rows. After the 25 rows of the budget
  \<^verbatim>\<open>step\<close> aborts the parser, and \<^verbatim>\<open>complete\<close> then compares the row count with
  \<^verbatim>\<open>results.data.length\<close>, where \<^verbatim>\<open>results.data\<close> is the row at which the parser was
  aborted. For a file of 60 rows whose row 25 has a cell \<open>s\<close> in a column named
  \<^verbatim>\<open>length\<close> with \<^verbatim>\<open>25 >= s\<close>, and a stored cursor of 0, the first invocation that
  returns normally maps exactly the rows 0 to 24, finds the file complete, publishes no
  continuation message and finalizes: it sends the summary notification and, its clean-up
  calls fulfilled, the four keys of the job and the file are gone. The rows 25 to 59 are
  never imported.
\<close>

theorem length_column_finalizes_early:
  assumes "payload_id p \<noteq> []" and "payload_url p \<noteq> []"
    and "files w0 (payload_url p) = Some rows" and "length rows = 60"
    and "map_of (rows ! 25) ''length'' = Some s"
    and "number_ge_string (mapper env) 25 s"
    and "redis_get_int (redis w0) (cursorKey p) = 0"
    and "fst (POST env p w0) = OK" and "wa = snd (POST env p w0)"
    and "cleanupOk env 0 \<and> cleanupOk env 1 \<and> cleanupOk env 2 \<and> cleanupOk env 3 \<and> cleanupOk env 4"
  shows "mappedLinks (Papa_parse (mapper env) p (redis_get_int (redis w0) (cursorKey p)) rows (redis w0))
        = map (\<lambda>row. mapCsvRowToLink (mapper env) row (mapping p)) (take 25 rows)
    \<and> currentRow (Papa_parse (mapper env) p (redis_get_int (redis w0) (cursorKey p)) rows (redis w0))
        = 25
    \<and> isComplete (Papa_parse (mapper env) p (redis_get_int (redis w0) (cursorKey p)) rows (redis w0))
    \<and> queue wa = queue w0
    \<and> length (emails wa) = length (emails w0) + 1
    \<and> e_workspaceId (last (emails wa)) = workspaceId p
    \<and> r_num (redis wa) (cursorKey p) = None
    \<and> r_num (redis wa) (createdKey p) = None
    \<and> r_list (redis wa) (failedKey p) = None
    \<and> r_set (redis wa) (domainsKey p) = None
    \<and> files wa (payload_url p) = None"
proof -
  note pid = assms(1,2)
  let ?st = "Papa_parse (mapper env) p (redis_get_int (redis w0) (cursorKey p)) rows (redis w0)"
  have m: "MAX_ROWS_PER_EXECUTION = 25" by (simp add: MAX_ROWS_PER_EXECUTION_def)
  have ic: "isComplete ?st"
    using assms(4,5,6) by (simp add: Papa_parse_isComplete assms(7) m)
  then have last: "redis_get_int (redis w0) (cursorKey p) + MAX_ROWS_PER_EXECUTION < length rows
      \<longrightarrow> isComplete ?st"
    by simp
  note c = POST_finalize [OF pid assms(3) assms(8) last, folded assms(9)]
  have p0: "mappedLinks ?st
        = map (\<lambda>row. mapCsvRowToLink (mapper env) row (mapping p)) (take 25 rows)"
    by (simp add: Papa_parse_fields assms(7) m)
  have cr: "currentRow ?st = 25"
    using assms(4) by (simp add: Papa_parse_fields assms(7) m)
  from c(4) [OF assms(10)] p0 cr ic c(1,2,3)
  show ?thesis by (intro conjI) simp_all
qed

theorem length_column_finalizes_early_witness:
  "length (length_rows 60) = 60
   \<and> map_of (length_rows 60 ! 25) ''length'' = Some ''0''
   \<and> fst (POST sample_env sample_payload length_world) = OK
   \<and> length (mappedLinks (Papa_parse (mapper sample_env) sample_payload 0 (length_rows 60)
                (redis length_world))) = 25
   \<and> queue (snd (POST sample_env sample_payload length_world)) = []
   \<and> length (emails (snd (POST sample_env sample_payload length_world))) = 1
   \<and> r_num (redis (snd (POST sample_env sample_payload length_world))) (cursorKey sample_payload)
       = None
   \<and> files (snd (POST sample_env sample_payload length_world)) (payload_url sample_payload) = None"
proof -
  let ?p = sample_payload
  let ?rows = "length_rows 60"
  have pid: "payload_id ?p \<noteq> []" "payload_url ?p \<noteq> []"
    by (simp_all add: sample_payload_def)
  have f0: "files length_world (payload_url ?p) = Some ?rows"
    by (simp add: length_world_def)
  have len: "length ?rows = 60" by (simp add: length_rows_def)
  have cell: "map_of (?rows ! 25) ''length'' = Some ''0''"
    by (simp add: length_rows_def length_row_def sample_row_def)
  have ge: "number_ge_string (mapper sample_env) 25 ''0''"
    by (simp add: sample_env_def sample_mapper_env_def sample_ge_def digit_value_def)
  have c0: "redis_get_int (redis length_world) (cursorKey ?p) = 0"
    by (simp add: length_world_def sample_world_def empty_redis_def redis_get_int_def)
  have pr0: "projectTable length_world (workspaceId ?p) = Some ''pro''"
    by (simp add: length_world_def sample_world_def sample_payload_def)
  have tot: "\<exists>b'. createLinkBodySchema_parse sample_env b = Inr b'" for b
    by (simp add: sample_env_def)
  have q0: "queue length_world = []" "emails length_world = []"
    by (simp_all add: length_world_def sample_world_def)
  have ok0: "fst (POST sample_env ?p length_world) = OK"
    by (rule POST_returns_OK [OF pid f0 pr0 tot])
  have cl: "cleanupOk sample_env 0 \<and> cleanupOk sample_env 1 \<and> cleanupOk sample_env 2
      \<and> cleanupOk sample_env 3 \<and> cleanupOk sample_env 4"
    by (simp add: sample_env_def)
  from length_column_finalizes_early [OF pid f0 len cell ge c0 ok0 refl cl] ok0 q0 len cell
  show ?thesis by (simp add: c0)
qed

end
